theory Spec2Isabelle
  imports
    Main
    "HOL-Library.Multiset"
    "HOL-Library.List_Lexorder"
    "HOL-Library.Char_ord"
    "HOL-Library.AList"
begin

section \<open>Python values\<close>

text \<open>
  The functions of \<^verbatim>\<open>figshare/Utils.py\<close> work on values decoded from JSON. A Python
  \<^verbatim>\<open>dict\<close> keeps the order in which its keys were inserted, and that order is what
  \<^verbatim>\<open>str\<close> and \<^verbatim>\<open>json.dumps\<close> print, so a dictionary is an association list.
  Numbers are Python's unbounded integers; floating point numbers are outside the model.
  A character is a code point below 256.
\<close>

datatype json =
    JNull
  | JBool bool
  | JInt int
  | JStr string
  | JList "json list"
  | JDict "(string \<times> json) list"

text \<open>The exceptions the modelled code can raise.\<close>

datatype error =
    TypeError
  | KeyError
  | IndexError
  | ValueError
  | FileNotFoundError
  | NotADirectoryError
  | PermissionError
  | RequestException

fun is_dict :: "json \<Rightarrow> bool" where
  "is_dict (JDict kvs) = True"
| "is_dict v = False"

fun dict_items :: "json \<Rightarrow> (string \<times> json) list" where
  "dict_items (JDict kvs) = kvs"
| "dict_items v = []"

subsection \<open>Strings\<close>

text \<open>\<^verbatim>\<open>xs[i]\<close>: a negative index counts from the end, an index out of range raises.\<close>

definition py_index :: "'a list \<Rightarrow> int \<Rightarrow> error + 'a" where
  "py_index xs i =
     (if 0 \<le> i \<and> i < int (length xs) then Inr (xs ! nat i)
      else if i < 0 \<and> - i \<le> int (length xs) then Inr (xs ! nat (int (length xs) + i))
      else Inl IndexError)"

text \<open>\<^verbatim>\<open>sub in s\<close> on strings: \<^verbatim>\<open>sub\<close> occurs in \<^verbatim>\<open>s\<close> as a contiguous run.\<close>

fun py_startswith :: "string \<Rightarrow> string \<Rightarrow> bool" where
  "py_startswith s [] = True"
| "py_startswith [] (p # ps) = False"
| "py_startswith (c # cs) (p # ps) = (c = p \<and> py_startswith cs ps)"

fun py_contains :: "string \<Rightarrow> string \<Rightarrow> bool" where
  "py_contains [] sub = (sub = [])"
| "py_contains (c # cs) sub = (py_startswith (c # cs) sub \<or> py_contains cs sub)"

text \<open>\<^verbatim>\<open>sep.join(parts)\<close>.\<close>

fun py_join :: "string \<Rightarrow> string list \<Rightarrow> string" where
  "py_join sep [] = []"
| "py_join sep [x] = x"
| "py_join sep (x # y # ys) = x @ sep @ py_join sep (y # ys)"

text \<open>
  The white space of \<^verbatim>\<open>str.split()\<close> among the code points below 256:
  tab to carriage return, the four separators \<^verbatim>\<open>\x1c\<close> to \<^verbatim>\<open>\x1f\<close>, the space,
  \<^verbatim>\<open>\x85\<close> and \<^verbatim>\<open>\xa0\<close>. The line boundaries of \<^verbatim>\<open>str.splitlines()\<close> are
  \<^verbatim>\<open>\n \x0b \x0c \r \x1c \x1d \x1e \x85\<close>, and \<^verbatim>\<open>\r\n\<close> is one boundary.
\<close>

definition is_space :: "char \<Rightarrow> bool" where
  "is_space c =
     (let n = (of_char c :: nat)
      in (9 \<le> n \<and> n \<le> 13) \<or> (28 \<le> n \<and> n \<le> 32) \<or> n = 133 \<or> n = 160)"

definition is_linebreak :: "char \<Rightarrow> bool" where
  "is_linebreak c =
     (let n = (of_char c :: nat)
      in (10 \<le> n \<and> n \<le> 13) \<or> (28 \<le> n \<and> n \<le> 30) \<or> n = 133)"

text \<open>
  \<^verbatim>\<open>s.splitlines()\<close>: the lines without their boundaries; a boundary at the very end
  opens no further line, so the empty string has no line. The first argument is the
  line read so far, reversed.
\<close>

fun splitlines_from :: "string \<Rightarrow> string \<Rightarrow> string list" where
  "splitlines_from cur [] = (if cur = [] then [] else [rev cur])"
| "splitlines_from cur (c # cs) =
     (if is_linebreak c then
        (case cs of
           d # ds \<Rightarrow>
             if c = CHR 0x0D \<and> d = CHR 0x0A then rev cur # splitlines_from [] ds
             else rev cur # splitlines_from [] (d # ds)
         | [] \<Rightarrow> [rev cur])
      else splitlines_from (c # cur) cs)"

definition splitlines :: "string \<Rightarrow> string list" where
  "splitlines s = splitlines_from [] s"

text \<open>
  \<^verbatim>\<open>s.split()\<close>: the maximal runs of characters that are not white space; no run is
  empty.
\<close>

fun split_ws_from :: "string \<Rightarrow> string \<Rightarrow> string list" where
  "split_ws_from cur [] = (if cur = [] then [] else [rev cur])"
| "split_ws_from cur (c # cs) =
     (if is_space c then
        (if cur = [] then split_ws_from [] cs else rev cur # split_ws_from [] cs)
      else split_ws_from (c # cur) cs)"

definition split_ws :: "string \<Rightarrow> string list" where
  "split_ws s = split_ws_from [] s"

text \<open>
  \<^verbatim>\<open>s.split(sep)\<close> for a separator of one character: the pieces between the
  separators, empty pieces included, so the result is never empty.
\<close>

fun split_on :: "char \<Rightarrow> string \<Rightarrow> string list" where
  "split_on sep [] = [[]]"
| "split_on sep (c # cs) =
     (if c = sep then [] # split_on sep cs
      else (case split_on sep cs of
              w # ws \<Rightarrow> (c # w) # ws
            | [] \<Rightarrow> [[c]]))"

text \<open>
  \<^verbatim>\<open>s.rsplit(sep, 1)\<close>: at most one split, at the last separator: what stands before
  it and what stands after it, or the string alone when it has no separator.
\<close>

definition rsplit1 :: "char \<Rightarrow> string \<Rightarrow> string list" where
  "rsplit1 sep s =
     (if sep \<in> set s then
        (let after = rev (takeWhile (\<lambda>c. c \<noteq> sep) (rev s))
         in [take (length s - length after - 1) s, after])
      else [s])"

text \<open>\<^verbatim>\<open>s.zfill(width)\<close>: zeros on the left, after a leading sign.\<close>

definition zfill :: "nat \<Rightarrow> string \<Rightarrow> string" where
  "zfill width s =
     (if width \<le> length s then s
      else (case s of
              c # cs \<Rightarrow>
                if c = CHR ''+'' \<or> c = CHR ''-''
                then c # replicate (width - length s) CHR ''0'' @ cs
                else replicate (width - length s) CHR ''0'' @ s
            | [] \<Rightarrow> replicate width CHR ''0''))"

subsection \<open>Conversions: \<^verbatim>\<open>str\<close>, \<^verbatim>\<open>repr\<close>, \<^verbatim>\<open>int\<close>\<close>

definition digit_char :: "nat \<Rightarrow> char" where
  "digit_char d = ''0123456789abcdef'' ! d"

fun str_nat :: "nat \<Rightarrow> string" where
  "str_nat n = (if n < 10 then [digit_char n] else str_nat (n div 10) @ [digit_char (n mod 10)])"

declare str_nat.simps [simp del]

definition str_int :: "int \<Rightarrow> string" where
  "str_int i = (if i < 0 then CHR ''-'' # str_nat (nat (- i)) else str_nat (nat i))"

text \<open>
  \<^verbatim>\<open>repr\<close> of a string: in single quotes, or in double quotes when the string has a
  single quote and no double quote; the quote and the backslash are escaped, tab, newline
  and carriage return are written \<^verbatim>\<open>\t \n \r\<close>, and every other character that is not
  printable is written \<^verbatim>\<open>\xhh\<close>. Below 256 the characters that are not printable are
  the controls (below 32, and 127 to 159), the no-break space 160 and the soft hyphen 173.
\<close>

definition repr_quote :: "string \<Rightarrow> char" where
  "repr_quote s = (if CHR 0x27 \<in> set s \<and> CHR 0x22 \<notin> set s then CHR 0x22 else CHR 0x27)"

definition repr_char :: "char \<Rightarrow> char \<Rightarrow> string" where
  "repr_char q c =
     (let n = (of_char c :: nat)
      in if c = q \<or> c = CHR 0x5C then [CHR 0x5C, c]
         else if c = CHR 0x09 then [CHR 0x5C, CHR ''t'']
         else if c = CHR 0x0A then [CHR 0x5C, CHR ''n'']
         else if c = CHR 0x0D then [CHR 0x5C, CHR ''r'']
         else if n < 32 \<or> (127 \<le> n \<and> n \<le> 160) \<or> n = 173
           then [CHR 0x5C, CHR ''x'', digit_char (n div 16), digit_char (n mod 16)]
         else [c])"

definition repr_str :: "string \<Rightarrow> string" where
  "repr_str s = (let q = repr_quote s in q # concat (map (repr_char q) s) @ [q])"

fun py_repr :: "json \<Rightarrow> string" where
  "py_repr JNull = ''None''"
| "py_repr (JBool b) = (if b then ''True'' else ''False'')"
| "py_repr (JInt i) = str_int i"
| "py_repr (JStr s) = repr_str s"
| "py_repr (JList xs) = ''['' @ py_join '', '' (map py_repr xs) @ '']''"
| "py_repr (JDict kvs) =
     ''{'' @ py_join '', '' (map (\<lambda>(k, v). repr_str k @ '': '' @ py_repr v) kvs) @ ''}''"

text \<open>\<^verbatim>\<open>str(v)\<close>: a string is itself, every other value is printed as \<^verbatim>\<open>repr\<close> does.\<close>

fun py_str :: "json \<Rightarrow> string" where
  "py_str (JStr s) = s"
| "py_str v = py_repr v"

text \<open>
  \<^verbatim>\<open>int(v)\<close>. A string is stripped of white space and read as an optional sign and
  decimal digits, where single underscores may stand between digits; anything else raises
  \<^verbatim>\<open>ValueError\<close>. \<^verbatim>\<open>None\<close>, lists and dictionaries raise \<^verbatim>\<open>TypeError\<close>.
  The white space \<^verbatim>\<open>int\<close> strips is not that of \<^verbatim>\<open>split\<close>: of the ASCII characters
  only tab to carriage return and the space, and above them \<^verbatim>\<open>\x85\<close> and \<^verbatim>\<open>\xa0\<close>;
  the separators \<^verbatim>\<open>\x1c\<close> to \<^verbatim>\<open>\x1f\<close> are not stripped, and \<^verbatim>\<open>int('\x1c5')\<close>
  raises \<^verbatim>\<open>ValueError\<close>.
\<close>

definition is_int_space :: "char \<Rightarrow> bool" where
  "is_int_space c =
     (let n = (of_char c :: nat)
      in (9 \<le> n \<and> n \<le> 13) \<or> n = 32 \<or> n = 133 \<or> n = 160)"

definition is_digit :: "char \<Rightarrow> bool" where
  "is_digit c = (let n = (of_char c :: nat) in 48 \<le> n \<and> n \<le> 57)"

fun parse_digits :: "nat \<Rightarrow> string \<Rightarrow> nat option" where
  "parse_digits acc [] = Some acc"
| "parse_digits acc (c # cs) =
     (if is_digit c then parse_digits (10 * acc + (of_char c - 48)) cs
      else if c = CHR ''_'' \<and> cs \<noteq> [] \<and> is_digit (hd cs) then parse_digits acc cs
      else None)"

definition py_strip :: "string \<Rightarrow> string" where
  "py_strip s = rev (dropWhile is_int_space (rev (dropWhile is_int_space s)))"

definition parse_unsigned :: "string \<Rightarrow> error + int" where
  "parse_unsigned s =
     (if s \<noteq> [] \<and> is_digit (hd s) then
        (case parse_digits 0 s of None \<Rightarrow> Inl ValueError | Some n \<Rightarrow> Inr (int n))
      else Inl ValueError)"

definition int_of_str :: "string \<Rightarrow> error + int" where
  "int_of_str s =
     (case py_strip s of
        [] \<Rightarrow> Inl ValueError
      | c # cs \<Rightarrow>
          if c = CHR ''-'' then map_sum id uminus (parse_unsigned cs)
          else if c = CHR ''+'' then parse_unsigned cs
          else parse_unsigned (c # cs))"

fun py_int :: "json \<Rightarrow> error + int" where
  "py_int (JInt i) = Inr i"
| "py_int (JBool b) = Inr (if b then 1 else 0)"
| "py_int (JStr s) = int_of_str s"
| "py_int v = Inl TypeError"

section \<open>Version tags\<close>

text \<open>
  \<^verbatim>\<open>get_preserved_version_hash_and_size\<close> (lines 99 to 104) and \<^verbatim>\<open>check_wasabi\<close>
  (lines 195 to 200) hold the same statement, character for character:
  \<^verbatim>\<open>
    if 'v' in str(version_no):
        version_no = version_no
    elif int(version_no) < 10:
        version_no = f"v{str(version_no).zfill(2)}"
    else:
        version_no = f'v{str(version_no)}'
  \<close>
  The result is the new value of \<^verbatim>\<open>version_no\<close>. The first branch keeps the object
  as it is, whatever it is (a string, or a list or a dictionary whose \<^verbatim>\<open>str\<close> has a
  \<^verbatim>\<open>v\<close>); the other two make a string.
\<close>

definition lookup_version_tag :: "json \<Rightarrow> error + json" where
  "lookup_version_tag version_no =
     (if CHR ''v'' \<in> set (py_str version_no) then Inr version_no
      else (case py_int version_no of
              Inl e \<Rightarrow> Inl e
            | Inr i \<Rightarrow>
                if i < 10 then Inr (JStr (''v'' @ zfill 2 (py_str version_no)))
                else Inr (JStr (''v'' @ py_str version_no))))"

text \<open>
  \<^verbatim>\<open>calculate_payload_size\<close> (lines 312 to 314) pads first and replaces the tag when the
  number is above 9:
  \<^verbatim>\<open>
    version = f"v{str(version_no).zfill(2)}"
    if int(version_no) > 9:
        version = f"v{str(version_no)}"
  \<close>
\<close>

definition payload_version_tag :: "json \<Rightarrow> error + string" where
  "payload_version_tag version_no =
     (let version = ''v'' @ zfill 2 (py_str version_no)
      in (case py_int version_no of
            Inl e \<Rightarrow> Inl e
          | Inr i \<Rightarrow> if 9 < i then Inr (''v'' @ py_str version_no) else Inr version))"

section \<open>Bucket listings\<close>

text \<open>
  A list comprehension \<^verbatim>\<open>[e(x) for x in xs if c(x)]\<close>, where the condition and the
  element may raise: the first exception ends the comprehension.
\<close>

fun comprehension ::
  "('a \<Rightarrow> error + bool) \<Rightarrow> ('a \<Rightarrow> error + 'b) \<Rightarrow> 'a list \<Rightarrow> error + 'b list" where
  "comprehension c e [] = Inr []"
| "comprehension c e (x # xs) =
     (case c x of
        Inl err \<Rightarrow> Inl err
      | Inr False \<Rightarrow> comprehension c e xs
      | Inr True \<Rightarrow>
          (case e x of
             Inl err \<Rightarrow> Inl err
           | Inr y \<Rightarrow>
               (case comprehension c e xs of
                  Inl err \<Rightarrow> Inl err
                | Inr ys \<Rightarrow> Inr (y # ys))))"

text \<open>
  \<^verbatim>\<open>bagger/wasabi.py\<close>:
  \<^verbatim>\<open>[line.rsplit('/', 1)[-1] for line in lines if line.rsplit('/', 1)[-1] != '']\<close>
\<close>

definition get_filenames_from_ls_bagger :: "string \<Rightarrow> error + string list" where
  "get_filenames_from_ls_bagger ls =
     comprehension
       (\<lambda>line. map_sum id (\<lambda>name. name \<noteq> '''') (py_index (rsplit1 CHR ''/'' line) (- 1)))
       (\<lambda>line. py_index (rsplit1 CHR ''/'' line) (- 1))
       (splitlines ls)"

text \<open>
  \<^verbatim>\<open>redata_preservation/wasabi.py\<close>:
  \<^verbatim>\<open>[line.split('/')[-1] for line in lines if line.split('/')[-1] != '']\<close>
\<close>

definition get_filenames_from_ls_redata :: "string \<Rightarrow> error + string list" where
  "get_filenames_from_ls_redata ls =
     comprehension
       (\<lambda>line. map_sum id (\<lambda>name. name \<noteq> '''') (py_index (split_on CHR ''/'' line) (- 1)))
       (\<lambda>line. py_index (split_on CHR ''/'' line) (- 1))
       (splitlines ls)"

text \<open>
  \<^verbatim>\<open>figshare/Utils.py\<close>:
  \<^verbatim>\<open>
    [(line.rsplit('/', 1)[-1], line.split()[-2]) for line in lines if
     line.rsplit('/', 1)[-1] != '']
  \<close>
\<close>

definition get_filenames_and_sizes_from_ls :: "string \<Rightarrow> error + (string \<times> string) list" where
  "get_filenames_and_sizes_from_ls ls =
     comprehension
       (\<lambda>line. map_sum id (\<lambda>name. name \<noteq> '''') (py_index (rsplit1 CHR ''/'' line) (- 1)))
       (\<lambda>line.
          (case py_index (rsplit1 CHR ''/'' line) (- 1) of
             Inl err \<Rightarrow> Inl err
           | Inr name \<Rightarrow>
               (case py_index (split_ws line) (- 2) of
                  Inl err \<Rightarrow> Inl err
                | Inr sz \<Rightarrow> Inr (name, sz))))
       (splitlines ls)"

text \<open>
  The words of the specification: the final \<^verbatim>\<open>/\<close>-delimited segment of a line, and
  its second-to-last token.
\<close>

definition final_segment :: "string \<Rightarrow> string" where
  "final_segment line = last (split_on CHR ''/'' line)"

definition second_to_last_token :: "string \<Rightarrow> string" where
  "second_to_last_token line = rev (split_ws line) ! 1"

section \<open>The lookup in the registry\<close>

text \<open>
  A record of the registry's listing, \<^verbatim>\<open>{bag_name, payload_size}\<close>, and what one
  \<^verbatim>\<open>requests.get\<close> can do: raise a \<^verbatim>\<open>RequestException\<close>, or return a response with
  a status code and, in its body, \<^verbatim>\<open>results\<close>: a list of records or \<^verbatim>\<open>null\<close>.
\<close>

record package =
  bag_name :: string
  payload_size :: int

datatype response =
    ConnectionFailed
  | HttpResponse nat "package list option"

text \<open>
  The registry is the world outside: \<^verbatim>\<open>registry n page\<close> is what the request number
  \<^verbatim>\<open>n\<close> of a call (counted from 0) gets when it asks for \<^verbatim>\<open>page\<close>. Of the
  configuration only \<^verbatim>\<open>retries\<close> decides what the function does; \<^verbatim>\<open>retries_wait\<close>
  is the length of each sleep.
\<close>

type_synonym registry = "nat \<Rightarrow> nat \<Rightarrow> response"

record registry_config =
  retries :: int
  retries_wait :: int

text \<open>
  The scan of one page: the first record whose \<^verbatim>\<open>bag_name\<close> has both the article's
  number and the version's tag.
  \<^verbatim>\<open>
    for package in preserved_packages:
        if str(article_id) in package['bag_name'] and version_no in package['bag_name']:
  \<close>
  \<^verbatim>\<open>x in s\<close> on a string \<^verbatim>\<open>s\<close> raises \<^verbatim>\<open>TypeError\<close> when \<^verbatim>\<open>x\<close> is not a string;
  \<^verbatim>\<open>and\<close> asks its second operand only when the first holds.
\<close>

definition py_in_str :: "json \<Rightarrow> string \<Rightarrow> error + bool" where
  "py_in_str x s = (case x of JStr sub \<Rightarrow> Inr (py_contains s sub) | _ \<Rightarrow> Inl TypeError)"

fun find_package :: "string \<Rightarrow> json \<Rightarrow> package list \<Rightarrow> error + package option" where
  "find_package article version_no [] = Inr None"
| "find_package article version_no (p # ps) =
     (if py_contains (bag_name p) article then
        (case py_in_str version_no (bag_name p) of
           Inl e \<Rightarrow> Inl e
         | Inr True \<Rightarrow> Inr (Some p)
         | Inr False \<Rightarrow> find_package article version_no ps)
      else find_package article version_no ps)"

text \<open>
  How the inner loop \<^verbatim>\<open>while not page_empty\<close> ends: by the \<^verbatim>\<open>return\<close> of a match,
  by an empty page, by the exception of a request, or by an exception that is not a
  \<^verbatim>\<open>RequestException\<close>, which the \<^verbatim>\<open>except\<close> clause does not catch.
\<close>

datatype page_result =
    Found "string \<times> int"
  | PageEmpty
  | Failed
  | Crashed error

text \<open>
  The inner loop, from request number \<^verbatim>\<open>n\<close> and \<^verbatim>\<open>page\<close>, with the flag
  \<^verbatim>\<open>success\<close>; it gives how it ended, the number of requests made so far and the flag.
  A response whose status is not 200 changes nothing: neither \<^verbatim>\<open>page\<close> nor
  \<^verbatim>\<open>page_empty\<close> nor \<^verbatim>\<open>tries\<close>, and the loop asks again. After the \<^verbatim>\<open>for\<close>
  loop its \<^verbatim>\<open>else\<close> branch runs (the loop has no \<^verbatim>\<open>break\<close>) and turns the page.
  The loop can run forever, so it has fuel: \<^verbatim>\<open>None\<close> is a loop that has not ended
  within the fuel. The hash is \<^verbatim>\<open>package['bag_name'].split('_')[-1]\<close>; \<^verbatim>\<open>split\<close> never
  returns an empty list.
\<close>

fun scan_pages ::
  "nat \<Rightarrow> registry \<Rightarrow> string \<Rightarrow> json \<Rightarrow> nat \<Rightarrow> nat \<Rightarrow> bool
     \<Rightarrow> (page_result \<times> nat \<times> bool) option" where
  "scan_pages 0 reg article tag n page success = None"
| "scan_pages (Suc fuel) reg article tag n page success =
     (case reg n page of
        ConnectionFailed \<Rightarrow> Some (Failed, Suc n, success)
      | HttpResponse status results \<Rightarrow>
          if status = 200 then
            (case results of
               None \<Rightarrow> Some (PageEmpty, Suc n, True)
             | Some preserved_packages \<Rightarrow>
                 (case find_package article tag preserved_packages of
                    Inl e \<Rightarrow> Some (Crashed e, Suc n, True)
                  | Inr (Some p) \<Rightarrow>
                      Some (Found (last (split_on CHR ''_'' (bag_name p)), payload_size p),
                            Suc n, True)
                  | Inr None \<Rightarrow> scan_pages fuel reg article tag (Suc n) (page + 1) True))
          else scan_pages fuel reg article tag (Suc n) page success)"

text \<open>
  The outer loop \<^verbatim>\<open>while tries <= retries and not success\<close>. Its result is what the
  function returns or raises, with the number of requests made and of sleeps taken.
  \<^verbatim>\<open>
    except requests.exceptions.RequestException as e:
        tries += 1
        if tries > retries:
            raise
        sleep(retries_wait)
  \<close>
\<close>

type_synonym lookup_result = "(error + string \<times> int) \<times> nat \<times> nat"

fun retry_loop ::
  "nat \<Rightarrow> registry \<Rightarrow> int \<Rightarrow> string \<Rightarrow> json \<Rightarrow> int \<Rightarrow> nat \<Rightarrow> nat \<Rightarrow> bool
     \<Rightarrow> lookup_result option" where
  "retry_loop 0 reg max_tries article tag tries n sleeps success = None"
| "retry_loop (Suc fuel) reg max_tries article tag tries n sleeps success =
     (if tries \<le> max_tries \<and> \<not> success then
        (case scan_pages fuel reg article tag n 1 success of
           None \<Rightarrow> None
         | Some (Found r, n', success') \<Rightarrow> Some (Inr r, n', sleeps)
         | Some (Crashed e, n', success') \<Rightarrow> Some (Inl e, n', sleeps)
         | Some (PageEmpty, n', success') \<Rightarrow>
             retry_loop fuel reg max_tries article tag tries n' sleeps success'
         | Some (Failed, n', success') \<Rightarrow>
             if tries + 1 > max_tries then Some (Inl RequestException, n', sleeps)
             else retry_loop fuel reg max_tries article tag (tries + 1) n' (Suc sleeps) success')
      else Some (Inr ('''', 0), n, sleeps))"

definition get_preserved_version_hash_and_size ::
  "nat \<Rightarrow> registry \<Rightarrow> registry_config \<Rightarrow> json \<Rightarrow> json \<Rightarrow> lookup_result option" where
  "get_preserved_version_hash_and_size fuel reg config article_id version_no =
     (case lookup_version_tag version_no of
        Inl e \<Rightarrow> Some (Inl e, 0, 0)
      | Inr tag \<Rightarrow> retry_loop fuel reg (retries config) (py_str article_id) tag 1 0 0 False)"

text \<open>\<^verbatim>\<open>compare_hash\<close>: the two hashes are the same string.\<close>

definition compare_hash :: "string \<Rightarrow> string \<Rightarrow> bool" where
  "compare_hash article_version_hash preserved_pkg_hash =
     (article_version_hash = preserved_pkg_hash)"

section \<open>The size of the curated directory\<close>

text \<open>
  The file system is a tree: a file with its size, or a directory with whether it can be
  read, its own size and its entries. A path is resolved from the root of the tree,
  one name after the other; the empty path names nothing (the system call fails with
  \<^verbatim>\<open>ENOENT\<close>).
\<close>

datatype fs_node =
    FsFile nat
  | FsDir bool nat "(string \<times> fs_node) list"

fun walk :: "fs_node \<Rightarrow> string list \<Rightarrow> fs_node option" where
  "walk node [] = Some node"
| "walk (FsFile sz) (name # names) = None"
| "walk (FsDir readable sz entries) (name # names) =
     (case map_of entries name of
        None \<Rightarrow> None
      | Some child \<Rightarrow> walk child names)"

definition resolve :: "fs_node \<Rightarrow> string \<Rightarrow> fs_node option" where
  "resolve fs path =
     (if path = [] then None
      else walk fs (filter (\<lambda>name. name \<noteq> []) (split_on CHR ''/'' path)))"

fun node_is_dir :: "fs_node \<Rightarrow> bool" where
  "node_is_dir (FsDir readable sz entries) = True"
| "node_is_dir (FsFile sz) = False"

fun node_size :: "fs_node \<Rightarrow> nat" where
  "node_size (FsDir readable sz entries) = sz"
| "node_size (FsFile sz) = sz"

text \<open>\<^verbatim>\<open>os.access(path, os.R_OK)\<close>, \<^verbatim>\<open>os.scandir(path)\<close> (the names of the entries, each
  with its \<^verbatim>\<open>is_dir()\<close>), \<^verbatim>\<open>os.path.getsize(path)\<close> and \<^verbatim>\<open>os.path.join(a, b)\<close>.\<close>

definition os_access_read :: "fs_node \<Rightarrow> string \<Rightarrow> bool" where
  "os_access_read fs path =
     (case resolve fs path of
        None \<Rightarrow> False
      | Some (FsFile sz) \<Rightarrow> True
      | Some (FsDir readable sz entries) \<Rightarrow> readable)"

definition os_scandir :: "fs_node \<Rightarrow> string \<Rightarrow> error + (string \<times> bool) list" where
  "os_scandir fs path =
     (case resolve fs path of
        None \<Rightarrow> Inl FileNotFoundError
      | Some (FsFile sz) \<Rightarrow> Inl NotADirectoryError
      | Some (FsDir readable sz entries) \<Rightarrow>
          if readable then Inr (map (\<lambda>(name, node). (name, node_is_dir node)) entries)
          else Inl PermissionError)"

definition os_path_getsize :: "fs_node \<Rightarrow> string \<Rightarrow> error + nat" where
  "os_path_getsize fs path =
     (case resolve fs path of
        None \<Rightarrow> Inl FileNotFoundError
      | Some node \<Rightarrow> Inr (node_size node))"

definition os_path_join :: "string \<Rightarrow> string \<Rightarrow> string" where
  "os_path_join a b =
     (if b \<noteq> [] \<and> hd b = CHR ''/'' then b
      else if a = [] \<or> last a = CHR ''/'' then a @ b
      else a @ ''/'' @ b)"

text \<open>
  Each of the first three loops of \<^verbatim>\<open>calculate_ual_rdm_size\<close> keeps the first directory
  whose name has the wanted text, joined to the directory it was found in; the variable
  keeps its initial value \<^verbatim>\<open>""\<close> when there is none.
  \<^verbatim>\<open>
    for item in curation_storage_items:
        if item.is_dir() and item.name.__contains__(str(article_id)):
            article_dir = os.path.join(curation_storage, item.name)
            break
  \<close>
\<close>

fun first_dir_with :: "string \<Rightarrow> string \<Rightarrow> string \<Rightarrow> (string \<times> bool) list \<Rightarrow> string" where
  "first_dir_with initial parent wanted [] = initial"
| "first_dir_with initial parent wanted ((name, is_dir) # items) =
     (if is_dir \<and> py_contains name wanted then os_path_join parent name
      else first_dir_with initial parent wanted items)"

text \<open>
  The last loop adds the sizes of the entries:
  \<^verbatim>\<open>
    for item in os.scandir(article_version_ual_rdm):
        file_size = os.path.getsize(os.path.join(article_version_ual_rdm, item.name))
        version_ual_rdm_size += file_size
  \<close>
\<close>

fun add_sizes :: "fs_node \<Rightarrow> string \<Rightarrow> nat \<Rightarrow> (string \<times> bool) list \<Rightarrow> error + nat" where
  "add_sizes fs parent so_far [] = Inr so_far"
| "add_sizes fs parent so_far ((name, is_dir) # items) =
     (case os_path_getsize fs (os_path_join parent name) of
        Inl e \<Rightarrow> Inl e
      | Inr file_size \<Rightarrow> add_sizes fs parent (so_far + file_size) items)"

definition calculate_ual_rdm_size :: "fs_node \<Rightarrow> string \<Rightarrow> json \<Rightarrow> string \<Rightarrow> error + nat" where
  "calculate_ual_rdm_size fs curation_storage article_id version =
     (if os_access_read fs curation_storage then
        (case os_scandir fs curation_storage of
           Inl e \<Rightarrow> Inl e
         | Inr curation_storage_items \<Rightarrow>
             (let article_dir =
                    first_dir_with '''' curation_storage (py_str article_id)
                      curation_storage_items
              in case os_scandir fs article_dir of
                   Inl e \<Rightarrow> Inl e
                 | Inr article_items \<Rightarrow>
                     (let article_version_dir =
                            first_dir_with '''' article_dir version article_items
                      in case os_scandir fs article_version_dir of
                           Inl e \<Rightarrow> Inl e
                         | Inr version_items \<Rightarrow>
                             (let article_version_ual_rdm =
                                    first_dir_with '''' article_version_dir ''UAL_RDM''
                                      version_items
                              in case os_scandir fs article_version_ual_rdm of
                                   Inl e \<Rightarrow> Inl e
                                 | Inr ual_rdm_items \<Rightarrow>
                                     add_sizes fs article_version_ual_rdm 0 ual_rdm_items))))
      else Inr 0)"

text \<open>
  A store to run the function on: under \<^verbatim>\<open>/data\<close>, the article 44 has no directory of
  a version, the article 43 has its version 1 without \<^verbatim>\<open>UAL_RDM\<close>, the article 45 has
  all three levels and one file of 10 bytes, and the article 42 has no directory.
\<close>

definition curated :: fs_node where
  "curated = FsDir True 4096 [(''data'', FsDir True 4096
     [(''Poe_44'', FsDir True 4096 []),
      (''Roe_43'', FsDir True 4096 [(''v01'', FsDir True 4096 [])]),
      (''Doe_45'', FsDir True 4096 [(''v01'', FsDir True 4096
         [(''UAL_RDM'', FsDir True 4096 [(''a.txt'', FsFile 10)])])])])]"


section \<open>Comparing and sorting Python values\<close>

text \<open>
  \<^verbatim>\<open>a == b\<close>. \<^verbatim>\<open>True\<close> and \<^verbatim>\<open>False\<close> are the integers 1 and 0. Lists are equal
  when they have the same length and equal elements. Dictionaries are equal when they
  have the same keys with equal values, whatever the order: each item of the one is
  within the other. Values of different kinds are not equal; nothing is raised.
\<close>

lemma size_map_of:
  "map_of kvs k = Some v \<Longrightarrow> size v < size_list (size_prod (\<lambda>_. 0) size) kvs"
  by (induction kvs) (auto split: if_splits)

fun num_value :: "json \<Rightarrow> int option" where
  "num_value (JInt i) = Some i"
| "num_value (JBool b) = Some (if b then 1 else 0)"
| "num_value v = None"

function py_eq :: "json \<Rightarrow> json \<Rightarrow> bool"
  and py_eq_list :: "json list \<Rightarrow> json list \<Rightarrow> bool"
  and items_within :: "(string \<times> json) list \<Rightarrow> (string \<times> json) list \<Rightarrow> bool"
where
  "py_eq JNull b = (b = JNull)"
| "py_eq (JBool x) b = (num_value b = Some (if x then 1 else 0))"
| "py_eq (JInt i) b = (num_value b = Some i)"
| "py_eq (JStr s) b = (b = JStr s)"
| "py_eq (JList xs) b = (case b of JList ys \<Rightarrow> py_eq_list xs ys | _ \<Rightarrow> False)"
| "py_eq (JDict d) b =
     (case b of JDict e \<Rightarrow> items_within d e \<and> items_within e d | _ \<Rightarrow> False)"
| "py_eq_list [] ys = (ys = [])"
| "py_eq_list (x # xs) ys =
     (case ys of y # ys' \<Rightarrow> py_eq x y \<and> py_eq_list xs ys' | [] \<Rightarrow> False)"
| "items_within [] e = True"
| "items_within ((k, v) # d) e =
     ((case map_of e k of None \<Rightarrow> False | Some w \<Rightarrow> py_eq v w) \<and> items_within d e)"
  by pat_completeness auto
termination
  apply (relation "measure (\<lambda>x. case x of
            Inl (a, b) \<Rightarrow> size a + size b
          | Inr (Inl (xs, ys)) \<Rightarrow> size_list size xs + size_list size ys
          | Inr (Inr (d, e)) \<Rightarrow> size_list (size_prod (\<lambda>_. 0) size) d
                                + size_list (size_prod (\<lambda>_. 0) size) e)")
  apply (auto dest: size_map_of)
  done

text \<open>
  \<^verbatim>\<open>a < b\<close>. Numbers are ordered by value and strings by their code points. Two lists
  are compared at the first index where their elements are not equal (\<^verbatim>\<open>==\<close>), and
  by their lengths when there is none. Every other pair raises \<^verbatim>\<open>TypeError\<close>:
  \<^verbatim>\<open>None\<close> and dictionaries have no order, and neither have values of different kinds.
\<close>

fun py_lt :: "json \<Rightarrow> json \<Rightarrow> error + bool"
  and py_lt_list :: "json list \<Rightarrow> json list \<Rightarrow> error + bool"
where
  "py_lt JNull b = Inl TypeError"
| "py_lt (JBool x) b =
     (case num_value b of Some j \<Rightarrow> Inr ((if x then 1 else 0) < j) | None \<Rightarrow> Inl TypeError)"
| "py_lt (JInt i) b = (case num_value b of Some j \<Rightarrow> Inr (i < j) | None \<Rightarrow> Inl TypeError)"
| "py_lt (JStr s) b = (case b of JStr t \<Rightarrow> Inr (s < t) | _ \<Rightarrow> Inl TypeError)"
| "py_lt (JList xs) b = (case b of JList ys \<Rightarrow> py_lt_list xs ys | _ \<Rightarrow> Inl TypeError)"
| "py_lt (JDict d) b = Inl TypeError"
| "py_lt_list [] ys = Inr (ys \<noteq> [])"
| "py_lt_list (x # xs) ys =
     (case ys of
        y # ys' \<Rightarrow> if py_eq x y then py_lt_list xs ys' else py_lt x y
      | [] \<Rightarrow> Inr False)"

text \<open>
  \<^verbatim>\<open>sorted(xs, key=f)\<close> is stable and asks only \<^verbatim>\<open><\<close> of the keys; an exception of a
  comparison ends the sort. The model is the insertion sort: the elements are taken from
  left to right, and each moves to the left past the elements whose key its own key is
  less than (CPython's sort is this insertion on short lists, finding the place by
  bisection, and merges runs on long ones). The elements already placed are kept in
  reverse, the greatest first.
\<close>

fun insert_sorted ::
  "('k \<Rightarrow> 'k \<Rightarrow> error + bool) \<Rightarrow> ('a \<Rightarrow> 'k) \<Rightarrow> 'a \<Rightarrow> 'a list \<Rightarrow> error + 'a list" where
  "insert_sorted lt key x [] = Inr [x]"
| "insert_sorted lt key x (y # ys) =
     (case lt (key x) (key y) of
        Inl e \<Rightarrow> Inl e
      | Inr True \<Rightarrow>
          (case insert_sorted lt key x ys of
             Inl e \<Rightarrow> Inl e
           | Inr zs \<Rightarrow> Inr (y # zs))
      | Inr False \<Rightarrow> Inr (x # y # ys))"

fun sort_from ::
  "('k \<Rightarrow> 'k \<Rightarrow> error + bool) \<Rightarrow> ('a \<Rightarrow> 'k) \<Rightarrow> 'a list \<Rightarrow> 'a list \<Rightarrow> error + 'a list" where
  "sort_from lt key placed [] = Inr (rev placed)"
| "sort_from lt key placed (x # xs) =
     (case insert_sorted lt key x placed of
        Inl e \<Rightarrow> Inl e
      | Inr placed' \<Rightarrow> sort_from lt key placed' xs)"

definition py_sorted ::
  "('k \<Rightarrow> 'k \<Rightarrow> error + bool) \<Rightarrow> ('a \<Rightarrow> 'k) \<Rightarrow> 'a list \<Rightarrow> error + 'a list" where
  "py_sorted lt key xs = sort_from lt key [] xs"

text \<open>\<^verbatim>\<open><\<close> on tuples of strings: the lexicographic order, which never raises.\<close>

definition str_tuple_lt :: "string list \<Rightarrow> string list \<Rightarrow> error + bool" where
  "str_tuple_lt a b = Inr (a < b)"

section \<open>The normalizer\<close>

text \<open>\<^verbatim>\<open>d.get(k, default)\<close> on the items of a dictionary.\<close>

definition dict_get :: "(string \<times> json) list \<Rightarrow> string \<Rightarrow> json \<Rightarrow> json" where
  "dict_get d k fallback = (case map_of d k of None \<Rightarrow> fallback | Some v \<Rightarrow> v)"

text \<open>
  The key of the sort of a list of dictionaries:
  \<^verbatim>\<open>lambda d: tuple(str(d.get(k, '')) for k in unique_dicts_keys)\<close>
\<close>

definition dicts_sort_key :: "string list \<Rightarrow> json \<Rightarrow> string list" where
  "dicts_sort_key unique_dicts_keys d =
     map (\<lambda>k. py_str (dict_get (dict_items d) k (JStr ''''))) unique_dicts_keys"

text \<open>
  \<^verbatim>\<open>sorter_api_result\<close>, with the generator \<^verbatim>\<open>sorter_api_result(item) for item in
  json_dict_\<close> (\<^verbatim>\<open>sorter_items\<close>) and the loop over the sorted keys of a dictionary
  (\<^verbatim>\<open>sorter_fields\<close>: the dictionary read, the keys still to visit, and
  \<^verbatim>\<open>sorted_dict\<close> as built so far). \<^verbatim>\<open>sorted_dict[key] = v\<close> replaces the value of a
  key that is there and appends a key that is new.
  \<^verbatim>\<open>
    if not isinstance(json_dict_, (dict, list)):
        return json_dict_
    if isinstance(json_dict_, list):
        if all(isinstance(item, dict) for item in json_dict_) and len(json_dict_) != 0:
            dicts_keys = [key for item in json_dict_ for key in item.keys()]
            unique_dicts_keys = sorted(set(dicts_keys))
            return sorted(json_dict_,
                          key=lambda d: tuple(str(d.get(k, '')) for k in unique_dicts_keys))
        else:
            return sorted(sorter_api_result(item) for item in json_dict_)
    if isinstance(json_dict_, dict):
        sorted_dict = {}
        json_dict_keys = sorted(json_dict_.keys())
        for key in json_dict_keys:
            if key == 'authors':
                sorted_dict[key] = json_dict_[key]
                continue
            sorted_dict[key] = sorter_api_result(json_dict_[key])
        return sorted_dict
  \<close>
\<close>

function sorter_api_result :: "json \<Rightarrow> error + json"
  and sorter_items :: "json list \<Rightarrow> error + json list"
  and sorter_fields ::
    "(string \<times> json) list \<Rightarrow> string list \<Rightarrow> (string \<times> json) list
       \<Rightarrow> error + (string \<times> json) list"
where
  "sorter_api_result JNull = Inr JNull"
| "sorter_api_result (JBool b) = Inr (JBool b)"
| "sorter_api_result (JInt i) = Inr (JInt i)"
| "sorter_api_result (JStr s) = Inr (JStr s)"
| "sorter_api_result (JList json_list) =
     (if list_all is_dict json_list \<and> length json_list \<noteq> 0 then
        (let dicts_keys = concat (map (\<lambda>item. map fst (dict_items item)) json_list);
             unique_dicts_keys = sorted_list_of_set (set dicts_keys)
         in map_sum id JList
              (py_sorted str_tuple_lt (dicts_sort_key unique_dicts_keys) json_list))
      else
        (case sorter_items json_list of
           Inl e \<Rightarrow> Inl e
         | Inr items \<Rightarrow> map_sum id JList (py_sorted py_lt (\<lambda>v. v) items)))"
| "sorter_api_result (JDict json_dict) =
     map_sum id JDict (sorter_fields json_dict (sort (map fst json_dict)) [])"
| "sorter_items [] = Inr []"
| "sorter_items (item # items) =
     (case sorter_api_result item of
        Inl e \<Rightarrow> Inl e
      | Inr v \<Rightarrow>
          (case sorter_items items of
             Inl e \<Rightarrow> Inl e
           | Inr vs \<Rightarrow> Inr (v # vs)))"
| "sorter_fields json_dict [] sorted_dict = Inr sorted_dict"
| "sorter_fields json_dict (key # keys) sorted_dict =
     (case map_of json_dict key of
        None \<Rightarrow> Inl KeyError
      | Some v \<Rightarrow>
          if key = ''authors'' then
            sorter_fields json_dict keys (AList.update key v sorted_dict)
          else
            (case sorter_api_result v of
               Inl e \<Rightarrow> Inl e
             | Inr w \<Rightarrow> sorter_fields json_dict keys (AList.update key w sorted_dict)))"
  by pat_completeness auto
termination
proof (relation "inv_image (less_than <*lex*> less_than) (\<lambda>x. case x of
            Inl v \<Rightarrow> (2 * size v, 0)
          | Inr (Inl vs) \<Rightarrow> (2 * size_list size vs + 1, 0)
          | Inr (Inr (d, keys, sorted_dict)) \<Rightarrow>
              (2 * size_list (size_prod (\<lambda>_. 0) size) d + 1, length keys))", goal_cases)
  case 1
  show ?case by auto
next
  case 2
  show ?case by simp
next
  case 3
  show ?case by simp
next
  case 4
  show ?case by simp
next
  case 5
  show ?case by simp
next
  case 6
  show ?case by simp
next
  case (7 json_dict key keys sorted_dict v)
  then show ?case using size_map_of [of json_dict key v] by simp
next
  case 8
  show ?case by simp
qed

text \<open>
  What one round of the loop over the keys stores under \<^verbatim>\<open>key\<close>: the value as it is
  for \<^verbatim>\<open>authors\<close>, the normalized value for every other key.
\<close>

definition field_value :: "(string \<times> json) list \<Rightarrow> string \<Rightarrow> error + json" where
  "field_value json_dict key =
     (case map_of json_dict key of
        None \<Rightarrow> Inl KeyError
      | Some v \<Rightarrow> if key = ''authors'' then Inr v else sorter_api_result v)"

text \<open>
  The words of the specification for a non-empty list of dictionaries: the list sorted
  (stably, as \<^verbatim>\<open>sorted\<close> is) by the tuple of \<^verbatim>\<open>str(element.get(key, ""))\<close> over the
  union of the keys of all elements, the keys taken in ascending order. The elements
  themselves are not touched.
\<close>

definition union_of_keys :: "json list \<Rightarrow> string set" where
  "union_of_keys json_list = (\<Union>element \<in> set json_list. fst ` set (dict_items element))"

definition spec_sort_dicts :: "json list \<Rightarrow> json list" where
  "spec_sort_dicts json_list =
     sort_key
       (\<lambda>element. map (\<lambda>key. py_str (dict_get (dict_items element) key (JStr '''')))
                     (sorted_list_of_set (union_of_keys json_list)))
       json_list"

section \<open>The size of the payload\<close>

text \<open>
  \<^verbatim>\<open>json.dumps(value, indent=4)\<close>: items are separated by a comma and a new line, a key
  and its value by a colon and a space, and each level is indented by four spaces; an
  empty list or dictionary is written without a new line. The text is ASCII: in a
  string the quote and the backslash are escaped, the controls 8, 9, 10, 12 and 13 are
  written \<^verbatim>\<open>\b \t \n \f \r\<close>, and every other character outside the printable ASCII as
  \<^verbatim>\<open>\u00hh\<close>.
\<close>

definition json_escape :: "char \<Rightarrow> string" where
  "json_escape c =
     (let n = (of_char c :: nat)
      in if c = CHR 0x22 \<or> c = CHR 0x5C then [CHR 0x5C, c]
         else if c = CHR 0x08 then [CHR 0x5C, CHR ''b'']
         else if c = CHR 0x09 then [CHR 0x5C, CHR ''t'']
         else if c = CHR 0x0A then [CHR 0x5C, CHR ''n'']
         else if c = CHR 0x0C then [CHR 0x5C, CHR ''f'']
         else if c = CHR 0x0D then [CHR 0x5C, CHR ''r'']
         else if n < 32 \<or> 126 < n
           then [CHR 0x5C, CHR ''u'', CHR ''0'', CHR ''0'', digit_char (n div 16),
                 digit_char (n mod 16)]
         else [c])"

definition json_string :: "string \<Rightarrow> string" where
  "json_string s = CHR 0x22 # concat (map json_escape s) @ [CHR 0x22]"

definition json_newline :: "nat \<Rightarrow> string" where
  "json_newline level = CHR 0x0A # replicate (4 * level) CHR '' ''"

fun json_dumps :: "nat \<Rightarrow> json \<Rightarrow> string" where
  "json_dumps level JNull = ''null''"
| "json_dumps level (JBool b) = (if b then ''true'' else ''false'')"
| "json_dumps level (JInt i) = str_int i"
| "json_dumps level (JStr s) = json_string s"
| "json_dumps level (JList xs) =
     (if xs = [] then ''[]''
      else ''['' @ json_newline (Suc level)
           @ py_join ('','' @ json_newline (Suc level)) (map (json_dumps (Suc level)) xs)
           @ json_newline level @ '']'')"
| "json_dumps level (JDict kvs) =
     (if kvs = [] then ''{}''
      else ''{'' @ json_newline (Suc level)
           @ py_join ('','' @ json_newline (Suc level))
               (map (\<lambda>(k, v). json_string k @ '': '' @ json_dumps (Suc level) v) kvs)
           @ json_newline level @ ''}'')"

text \<open>
  The caller's version record is an object that the functions receive by reference. The
  store maps an address to the dictionary that lives there; the values inside it are not
  written by any function, so they are values.
\<close>

type_synonym store = "nat \<Rightarrow> (string \<times> json) list"

text \<open>
  \<^verbatim>\<open>standardize_api_result\<close>. The statement \<^verbatim>\<open>api_result_dict = api_result\<close> gives the
  same object a second name, and the loop writes into it:
  \<^verbatim>\<open>
    api_result_dict = api_result
    for key in api_result_dict.keys():
        if api_result_dict[key] == 'null' or api_result_dict[key] is None:
            api_result_dict[key] = ""
    return api_result_dict
  \<close>
  The loop gives the dictionary as written so far, and the exception if a key is not there.
\<close>

fun standardize_loop ::
  "string list \<Rightarrow> (string \<times> json) list \<Rightarrow> (string \<times> json) list \<times> error option" where
  "standardize_loop [] d = (d, None)"
| "standardize_loop (key # keys) d =
     (case map_of d key of
        None \<Rightarrow> (d, Some KeyError)
      | Some v \<Rightarrow>
          if py_eq v (JStr ''null'') \<or> v = JNull
          then standardize_loop keys (AList.update key (JStr '''') d)
          else standardize_loop keys d)"

definition standardize_api_result :: "store \<Rightarrow> nat \<Rightarrow> store \<times> (error + nat)" where
  "standardize_api_result st api_result =
     (let api_result_dict = api_result;
          (d, failure) = standardize_loop (map fst (st api_result_dict)) (st api_result_dict);
          st' = st(api_result_dict := d)
      in case failure of
           Some e \<Rightarrow> (st', Inl e)
         | None \<Rightarrow> (st', Inr api_result_dict))"

text \<open>
  \<^verbatim>\<open>calculate_json_file_size\<close>. The temporary directory is the world outside: its
  path (\<^verbatim>\<open>tempfile.gettempdir()\<close>), whether it exists and can be written, and what
  \<^verbatim>\<open>open(filepath, 'w')\<close> does for a path: it creates the file, or it raises. The
  path of the file is built from the record's \<^verbatim>\<open>id\<close>, so an \<^verbatim>\<open>id\<close> whose text has
  a \<^verbatim>\<open>/\<close> names a file outside the directory that was tested. The file holds the text
  of \<^verbatim>\<open>json.dumps\<close>, which is ASCII, so its size is the length of the text (with the
  new lines of POSIX).
  \<^verbatim>\<open>
    version_data_copy = standardize_api_result(version_data)
    version_data_copy = sorter_api_result(version_data_copy)
    version_data_copy_json = json.dumps(version_data_copy, indent=4)
    temp_dir = tempfile.gettempdir()
    filename = str(version_data['id']) + ".json"
    json_file_size = 0
    filepath = os.path.join(temp_dir, filename)
    if os.path.exists(temp_dir):
        if os.access(temp_dir, os.W_OK):
            with open(filepath, 'w') as f:
                f.write(version_data_copy_json)
            json_file_size = os.path.getsize(filepath)
            os.remove(filepath)
    return json_file_size
  \<close>
\<close>

record temp_dir =
  temp_path :: string
  temp_exists :: bool
  temp_writable :: bool
  open_for_writing :: "string \<Rightarrow> error option"

definition calculate_json_file_size :: "temp_dir \<Rightarrow> store \<Rightarrow> nat \<Rightarrow> store \<times> (error + nat)" where
  "calculate_json_file_size tmp st version_data =
     (case standardize_api_result st version_data of
        (st', Inl e) \<Rightarrow> (st', Inl e)
      | (st', Inr version_data_copy) \<Rightarrow>
          (case sorter_api_result (JDict (st' version_data_copy)) of
             Inl e \<Rightarrow> (st', Inl e)
           | Inr sorted_copy \<Rightarrow>
               (let version_data_copy_json = json_dumps 0 sorted_copy
                in case map_of (st' version_data) ''id'' of
                     None \<Rightarrow> (st', Inl KeyError)
                   | Some ident \<Rightarrow>
                       (let filename = py_str ident @ ''.json'';
                            filepath = os_path_join (temp_path tmp) filename
                        in if temp_exists tmp \<and> temp_writable tmp then
                             (case open_for_writing tmp filepath of
                                Some e \<Rightarrow> (st', Inl e)
                              | None \<Rightarrow> (st', Inr (length version_data_copy_json)))
                           else (st', Inr 0)))))"

text \<open>
  \<^verbatim>\<open>calculate_payload_size\<close>: the three fields are read first, then the tag, the size of
  the directory, the size of the text, and their sum with the size reported in the
  record, which has to be a number.
\<close>

definition calculate_payload_size ::
  "fs_node \<Rightarrow> string \<Rightarrow> temp_dir \<Rightarrow> store \<Rightarrow> nat \<Rightarrow> store \<times> (error + int)" where
  "calculate_payload_size fs curation_storage tmp st version_data =
     (case (map_of (st version_data) ''id'', map_of (st version_data) ''size'',
            map_of (st version_data) ''version'') of
        (Some article_id, Some article_files_size, Some version_no) \<Rightarrow>
          (case payload_version_tag version_no of
             Inl e \<Rightarrow> (st, Inl e)
           | Inr version \<Rightarrow>
               (case calculate_ual_rdm_size fs curation_storage article_id version of
                  Inl e \<Rightarrow> (st, Inl e)
                | Inr version_ual_rdm_size \<Rightarrow>
                    (case calculate_json_file_size tmp st version_data of
                       (st', Inl e) \<Rightarrow> (st', Inl e)
                     | (st', Inr json_file_size) \<Rightarrow>
                         (case num_value article_files_size of
                            None \<Rightarrow> (st', Inl TypeError)
                          | Some reported \<Rightarrow>
                              (st', Inr (int version_ual_rdm_size + int json_file_size
                                         + reported))))))
      | _ \<Rightarrow> (st, Inl KeyError))"

text \<open>
  A temporary directory \<^verbatim>\<open>/tmp\<close> that is there and can be written: a file is created
  when it stands in \<^verbatim>\<open>/tmp\<close> itself, and every other path has no directory to stand in.
\<close>

definition posix_tmp :: temp_dir where
  "posix_tmp =
     \<lparr>temp_path = ''/tmp'', temp_exists = True, temp_writable = True,
      open_for_writing =
        (\<lambda>filepath. if rsplit1 CHR ''/'' filepath = [''/tmp'', final_segment filepath]
                        \<and> final_segment filepath \<noteq> ''''
                     then None else Some FileNotFoundError)\<rparr>"

section \<open>Properties of the listing parsers\<close>

lemma split_on_not_Nil: "split_on sep s \<noteq> []"
  by (induction s) (auto split: list.splits)

lemma split_on_no_sep: "sep \<notin> set s \<Longrightarrow> split_on sep s = [s]"
  by (induction s) auto

lemma split_on_sep_two: "sep \<in> set s \<Longrightarrow> \<exists>w v ws. split_on sep s = w # v # ws"
proof (induction s)
  case Nil
  then show ?case by simp
next
  case (Cons c cs)
  obtain w ws where sp: "split_on sep cs = w # ws"
    using split_on_not_Nil[of sep cs] by (cases "split_on sep cs") auto
  show ?case
  proof (cases "c = sep")
    case True
    then show ?thesis using sp by simp
  next
    case False
    with Cons.prems have "sep \<in> set cs" by simp
    from Cons.IH[OF this] show ?thesis using False by auto
  qed
qed

lemma last_split_on: "last (split_on sep s) = rev (takeWhile (\<lambda>c. c \<noteq> sep) (rev s))"
proof (induction s)
  case Nil
  show ?case by simp
next
  case (Cons c cs)
  show ?case
  proof (cases "sep \<in> set cs")
    case True
    then have tw: "takeWhile (\<lambda>c. c \<noteq> sep) (rev cs @ [c]) = takeWhile (\<lambda>c. c \<noteq> sep) (rev cs)"
      by (intro takeWhile_append1[of sep]) auto
    from True obtain w v ws where sp: "split_on sep cs = w # v # ws"
      using split_on_sep_two by blast
    show ?thesis using Cons tw sp by (auto split: list.splits)
  next
    case False
    then have tw: "takeWhile (\<lambda>c. c \<noteq> sep) (rev cs @ [c]) = rev cs @ takeWhile (\<lambda>c. c \<noteq> sep) [c]"
      by (intro takeWhile_append2) auto
    show ?thesis using False tw by (simp add: split_on_no_sep)
  qed
qed

lemma last_rsplit1: "last (rsplit1 sep s) = rev (takeWhile (\<lambda>c. c \<noteq> sep) (rev s))"
proof (cases "sep \<in> set s")
  case True
  then show ?thesis by (simp add: rsplit1_def Let_def)
next
  case False
  then have tw: "takeWhile (\<lambda>c. c \<noteq> sep) (rev s) = rev s"
    by (intro takeWhile_eq_all_conv[THEN iffD2]) auto
  show ?thesis using False by (simp add: rsplit1_def tw)
qed

lemma rsplit1_not_Nil: "rsplit1 sep s \<noteq> []"
  by (simp add: rsplit1_def Let_def)

lemma py_index_last: "xs \<noteq> [] \<Longrightarrow> py_index xs (- 1) = Inr (last xs)"
  by (cases xs rule: rev_cases) (auto simp: py_index_def nth_append)

lemma py_index_second_to_last:
  "2 \<le> length xs \<Longrightarrow> py_index xs (- 2) = Inr (rev xs ! 1)"
proof -
  assume len: "2 \<le> length xs"
  then have "rev xs ! 1 = xs ! (length xs - Suc 1)"
    by (intro rev_nth) simp
  moreover have "nat (int (length xs) + - 2) = length xs - Suc 1"
    using len by simp
  ultimately show ?thesis using len by (simp add: py_index_def)
qed

lemma py_index_short: "length xs < 2 \<Longrightarrow> py_index xs (- 2) = Inl IndexError"
  by (simp add: py_index_def)

lemma name_rsplit1: "py_index (rsplit1 CHR ''/'' line) (- 1) = Inr (final_segment line)"
  by (simp add: py_index_last rsplit1_not_Nil last_rsplit1 last_split_on final_segment_def)

lemma name_split_on: "py_index (split_on CHR ''/'' line) (- 1) = Inr (final_segment line)"
  by (simp add: py_index_last split_on_not_Nil final_segment_def)

lemma filenames_comprehension:
  "comprehension (\<lambda>line. Inr (final_segment line \<noteq> '''')) (\<lambda>line. Inr (final_segment line)) ls
     = Inr (filter (\<lambda>name. name \<noteq> '''') (map final_segment ls))"
  by (induction ls) auto

text \<open>
  C10: the two parsers of file names, \<^verbatim>\<open>get_filenames_from_ls\<close> of
  \<^verbatim>\<open>bagger/wasabi.py\<close> (which takes \<^verbatim>\<open>line.rsplit('/', 1)[-1]\<close>) and of
  \<^verbatim>\<open>redata_preservation/wasabi.py\<close> (which takes \<^verbatim>\<open>line.split('/')[-1]\<close>),
  return the same list for every input string: the non-empty final segments of the
  lines, in order. Neither raises.
\<close>

theorem listing_parsers_agree:
  "get_filenames_from_ls_bagger ls = get_filenames_from_ls_redata ls
   \<and> get_filenames_from_ls_redata ls
       = Inr (filter (\<lambda>name. name \<noteq> '''') (map final_segment (splitlines ls)))"
  by (simp add: get_filenames_from_ls_bagger_def get_filenames_from_ls_redata_def
      name_rsplit1 name_split_on filenames_comprehension)

text \<open>The two parsers on a line of a listing.\<close>

theorem listing_parsers_agree_witness:
  "get_filenames_from_ls_bagger ''x s3://b/a/f.tar'' = Inr [''f.tar'']"
  using listing_parsers_agree [of "''x s3://b/a/f.tar''"]
  by (simp add: get_filenames_from_ls_redata_def splitlines_def is_linebreak_def py_index_def)

lemma sizes_comprehension:
  "\<forall>line\<in>set ls. final_segment line \<noteq> '''' \<longrightarrow> 2 \<le> length (split_ws line) \<Longrightarrow>
   comprehension (\<lambda>line. Inr (final_segment line \<noteq> ''''))
     (\<lambda>line. case py_index (split_ws line) (- 2) of
                Inl err \<Rightarrow> Inl err
              | Inr sz \<Rightarrow> Inr (final_segment line, sz)) ls
     = Inr (map (\<lambda>line. (final_segment line, second_to_last_token line))
         (filter (\<lambda>line. final_segment line \<noteq> '''') ls))"
  by (induction ls) (auto simp: py_index_second_to_last second_to_last_token_def)

text \<open>
  C4, as stated, fails: a line with a non-empty final segment and a single token has no
  second-to-last token, and \<^verbatim>\<open>line.split()[-2]\<close> raises \<^verbatim>\<open>IndexError\<close>.
\<close>

theorem sizes_listing_counterexample:
  "get_filenames_and_sizes_from_ls ''s3://bucket/file.tar'' = Inl IndexError"
  by (simp add: get_filenames_and_sizes_from_ls_def splitlines_def is_linebreak_def
      rsplit1_def py_index_def split_ws_def is_space_def)

text \<open>
  C4, amended: for every input string in which each line with a non-empty final
  \<^verbatim>\<open>/\<close>-delimited segment has at least two tokens, the parser with sizes
  (\<^verbatim>\<open>get_filenames_and_sizes_from_ls\<close>) returns a list without raising: the lines
  whose final segment is empty are skipped, and every other line gives the pair of its
  final segment and its second-to-last token.
\<close>

theorem sizes_listing_parsed:
  assumes "\<forall>line\<in>set (splitlines ls). final_segment line \<noteq> '''' \<longrightarrow> 2 \<le> length (split_ws line)"
  shows "get_filenames_and_sizes_from_ls ls
     = Inr (map (\<lambda>line. (final_segment line, second_to_last_token line))
         (filter (\<lambda>line. final_segment line \<noteq> '''') (splitlines ls)))"
  using sizes_comprehension [OF assms]
  by (simp add: get_filenames_and_sizes_from_ls_def name_rsplit1)


text \<open>The line of the specification's example is parsed so.\<close>

theorem sizes_listing_parsed_witness:
  "get_filenames_and_sizes_from_ls (''2024-01-01 100 s3://bucket/path/file_abc123.tar'' @ [CHR 0x0A])
     = Inr [(''file_abc123.tar'', ''100'')]"
proof -
  let ?line = "''2024-01-01 100 s3://bucket/path/file_abc123.tar''"
  have lines: "splitlines (?line @ [CHR 0x0A]) = [?line]"
    by (simp add: splitlines_def is_linebreak_def)
  have toks: "split_ws ?line = [''2024-01-01'', ''100'', ''s3://bucket/path/file_abc123.tar'']"
    by (simp add: split_ws_def is_space_def)
  have seg: "final_segment ?line = ''file_abc123.tar''"
    by (simp add: final_segment_def)
  have "\<forall>l\<in>set (splitlines (?line @ [CHR 0x0A])).
          final_segment l \<noteq> '''' \<longrightarrow> 2 \<le> length (split_ws l)"
    unfolding lines by (simp add: toks)
  from sizes_listing_parsed [OF this] show ?thesis
    unfolding lines by (simp add: toks seg second_to_last_token_def)
qed

section \<open>Properties of the version tags\<close>

lemma digit_char_not_v: "n < 10 \<Longrightarrow> digit_char n \<noteq> CHR ''v''"
proof -
  assume "n < 10"
  then have "n \<in> {0, 1, 2, 3, 4, 5, 6, 7, 8, 9}" by auto
  then show ?thesis by (auto simp: digit_char_def)
qed

lemma str_nat_no_v: "CHR ''v'' \<notin> set (str_nat n)"
proof (induction n rule: str_nat.induct)
  case (1 n)
  show ?case
  proof (cases "n < 10")
    case True
    then show ?thesis using digit_char_not_v[of n] by (subst str_nat.simps) auto
  next
    case False
    then show ?thesis using 1 digit_char_not_v[of "n mod 10"] by (subst str_nat.simps) auto
  qed
qed

lemma str_int_no_v: "CHR ''v'' \<notin> set (str_int i)"
  by (simp add: str_int_def str_nat_no_v)

lemma lookup_version_tag_int:
  "lookup_version_tag (JInt i)
     = Inr (JStr (if i < 10 then ''v'' @ zfill 2 (str_int i) else ''v'' @ str_int i))"
  by (simp add: lookup_version_tag_def str_int_no_v)

lemma payload_version_tag_int:
  "payload_version_tag (JInt i)
     = Inr (if i < 10 then ''v'' @ zfill 2 (str_int i) else ''v'' @ str_int i)"
  by (simp add: payload_version_tag_def)

lemma str_int_values:
  "str_int 1 = ''1''" "str_int 9 = ''9''" "str_int 10 = ''10''"
  by (simp_all add: str_int_def str_nat.simps digit_char_def)

text \<open>
  C8: the version tag, in each place that computes it. The two lookups (the registry's
  and the object storage's, which share \<^verbatim>\<open>lookup_version_tag\<close>) and the estimator of
  the payload size map 1 to \<^verbatim>\<open>v01\<close>, 9 to \<^verbatim>\<open>v09\<close> and 10 to \<^verbatim>\<open>v10\<close>. In the
  lookups a string with the character \<^verbatim>\<open>v\<close> passes through unchanged; the estimator
  has the padded form only, and raises \<^verbatim>\<open>ValueError\<close> on \<^verbatim>\<open>"v3"\<close>.
\<close>

theorem version_tag_formatting:
  "lookup_version_tag (JInt 1) = Inr (JStr ''v01'')
   \<and> lookup_version_tag (JInt 9) = Inr (JStr ''v09'')
   \<and> lookup_version_tag (JInt 10) = Inr (JStr ''v10'')
   \<and> (\<forall>s. CHR ''v'' \<in> set s \<longrightarrow> lookup_version_tag (JStr s) = Inr (JStr s))
   \<and> (\<forall>version_no. CHR ''v'' \<in> set (py_str version_no)
          \<longrightarrow> lookup_version_tag version_no = Inr version_no)
   \<and> payload_version_tag (JInt 1) = Inr ''v01''
   \<and> payload_version_tag (JInt 9) = Inr ''v09''
   \<and> payload_version_tag (JInt 10) = Inr ''v10''
   \<and> payload_version_tag (JStr ''v3'') = Inl ValueError"
proof -
  have pass: "\<forall>version_no. CHR ''v'' \<in> set (py_str version_no)
                \<longrightarrow> lookup_version_tag version_no = Inr version_no"
    by (simp add: lookup_version_tag_def)
  have pass_str: "\<forall>s. CHR ''v'' \<in> set s \<longrightarrow> lookup_version_tag (JStr s) = Inr (JStr s)"
    by (simp add: lookup_version_tag_def)
  have no_pass: "payload_version_tag (JStr ''v3'') = Inl ValueError"
    by (simp add: payload_version_tag_def int_of_str_def py_strip_def is_int_space_def
        parse_unsigned_def is_digit_def)
  show ?thesis
    using pass pass_str no_pass
    by (simp add: lookup_version_tag_int payload_version_tag_int str_int_values zfill_def)
qed

text \<open>The string \<^verbatim>\<open>"v3"\<close> has a \<^verbatim>\<open>v\<close> and passes through the lookups' tag.\<close>

theorem version_tag_formatting_witness:
  "CHR ''v'' \<in> set ''v3'' \<and> lookup_version_tag (JStr ''v3'') = Inr (JStr ''v3'')"
  using version_tag_formatting by simp

section \<open>Properties of the lookup in the registry\<close>

lemma scan_pages_non200:
  assumes "\<forall>n page. \<exists>status results. reg n page = HttpResponse status results \<and> status \<noteq> 200"
  shows "scan_pages fuel reg article tag n page success = None"
proof (induction fuel arbitrary: n page success)
  case 0
  show ?case by simp
next
  case (Suc fuel)
  from assms obtain status results where "reg n page = HttpResponse status results" "status \<noteq> 200"
    by blast
  then show ?case using Suc.IH by simp
qed

lemma retry_loop_non200:
  assumes "\<forall>n page. \<exists>status results. reg n page = HttpResponse status results \<and> status \<noteq> 200"
    and "tries \<le> max_tries" and "\<not> success"
  shows "retry_loop fuel reg max_tries article tag tries n sleeps success = None"
  using assms(2,3) by (cases fuel) (simp_all add: scan_pages_non200 [OF assms(1)])

lemma lookup_version_tag_3: "lookup_version_tag (JInt 3) = Inr (JStr ''v03'')"
  by (simp add: lookup_version_tag_int str_int_def str_nat.simps digit_char_def zfill_def)

text \<open>
  C3 says that a response whose status is not 200 is counted against the maximum of
  retries and that the lookup ends, raising, after at most \<^verbatim>\<open>retries\<close> failed attempts.
  The code does not: against a registry that answers 500 to every request, with
  \<^verbatim>\<open>retries = 3\<close>, the lookup neither returns nor raises, whatever the fuel; it asks for
  page 1 again and again, and \<^verbatim>\<open>tries\<close> stays 1.
\<close>

theorem registry_non200_never_ends:
  "get_preserved_version_hash_and_size fuel (\<lambda>n page. HttpResponse 500 None)
     \<lparr>retries = 3, retries_wait = 5\<rparr> (JInt 42) (JInt 3) = None"
  by (simp add: get_preserved_version_hash_and_size_def lookup_version_tag_3 retry_loop_non200)

text \<open>
  The sibling path, a request that raises, is counted: with \<^verbatim>\<open>retries = 2\<close> the second
  failure is raised to the caller, after two requests and one sleep.
\<close>

lemma registry_down_retries_exhausted:
  "get_preserved_version_hash_and_size (Suc (Suc (Suc fuel))) (\<lambda>n page. ConnectionFailed)
     \<lparr>retries = 2, retries_wait = 5\<rparr> (JInt 42) (JInt 3)
   = Some (Inl RequestException, 2, 1)"
  by (simp add: get_preserved_version_hash_and_size_def lookup_version_tag_3)

text \<open>
  C5, as stated, fails: a page whose \<^verbatim>\<open>results\<close> is the empty list is an empty
  results page, and the code does not stop at it. The \<^verbatim>\<open>for\<close> loop runs over nothing,
  the page is turned, and a record of page 2 is returned instead of the default.
\<close>

theorem lookup_miss_counterexample:
  "get_preserved_version_hash_and_size 3
     (\<lambda>n page. if page = 1 then HttpResponse 200 (Some [])
                 else HttpResponse 200
                        (Some [\<lparr>bag_name = ''pkg_42_v03_abcdef123'', payload_size = 99\<rparr>]))
     \<lparr>retries = 3, retries_wait = 5\<rparr> (JInt 42) (JInt 3)
   = Some (Inr (''abcdef123'', 99), 2, 0)"
  by code_simp

text \<open>
  C5, amended: when the first request, for page 1, is answered with status 200 and
  \<^verbatim>\<open>results\<close> is \<^verbatim>\<open>null\<close> (which is what the code takes for an empty page), and the
  tag of the version can be computed, the lookup ends and returns the default
  \<^verbatim>\<open>("", 0)\<close>, for every fuel of at least 2. The retry policy is not invoked: nothing
  is raised, no sleep is taken, and one request is made (none when \<^verbatim>\<open>retries\<close> is
  below 1, where the loop is not entered).
\<close>

theorem lookup_miss_on_empty_first_page:
  assumes "lookup_version_tag version_no = Inr tag"
    and "reg 0 1 = HttpResponse 200 None"
  shows "get_preserved_version_hash_and_size (Suc (Suc fuel)) reg config article_id version_no
         = Some (Inr ('''', 0), (if 1 \<le> retries config then 1 else 0), 0)"
  using assms by (simp add: get_preserved_version_hash_and_size_def)


text \<open>A registry with no record at all.\<close>

theorem lookup_miss_on_empty_first_page_witness:
  "get_preserved_version_hash_and_size 2 (\<lambda>n page. HttpResponse 200 None)
     \<lparr>retries = 3, retries_wait = 5\<rparr> (JInt 42) (JInt 3)
   = Some (Inr ('''', 0), 1, 0)"
proof -
  have two: "(2::nat) = Suc (Suc 0)" by simp
  show ?thesis
    unfolding two
    using lookup_miss_on_empty_first_page
      [of "JInt 3" "JStr ''v03''" "\<lambda>n page. HttpResponse 200 None" 0
          "\<lparr>retries = 3, retries_wait = 5\<rparr>" "JInt 42"]
    by (simp add: lookup_version_tag_3)
qed

text \<open>
  A page whose \<^verbatim>\<open>results\<close> is the empty list is not an empty page for the code: the
  \<^verbatim>\<open>for\<close> loop runs over nothing and the next page is asked for.
\<close>

lemma empty_list_is_not_an_empty_page:
  "get_preserved_version_hash_and_size fuel (\<lambda>n page. HttpResponse 200 (Some []))
     \<lparr>retries = 3, retries_wait = 5\<rparr> (JInt 42) (JInt 3) = None"
proof -
  have scan: "scan_pages k (\<lambda>n page. HttpResponse 200 (Some [])) a t n page s = None"
    for k a t n page s
    by (induction k arbitrary: n page s) simp_all
  show ?thesis
    by (cases fuel) (simp_all add: get_preserved_version_hash_and_size_def lookup_version_tag_3 scan)
qed

section \<open>Properties of the size of the curated directory\<close>

text \<open>Where the root of the store cannot be read, the size is 0.\<close>

lemma unreadable_storage_gives_0:
  "\<not> os_access_read fs curation_storage \<Longrightarrow>
   calculate_ual_rdm_size fs curation_storage article_id version = Inr 0"
  by (simp add: calculate_ual_rdm_size_def)

text \<open>
  C2 says that the size is 0, and nothing is raised, when one of the three levels is
  absent under a root that can be read. The code does not: the variable of the absent
  level keeps its initial value \<^verbatim>\<open>""\<close>, and \<^verbatim>\<open>os.scandir("")\<close> raises
  \<^verbatim>\<open>FileNotFoundError\<close>. So it is at each of the three levels; with all three present
  the sizes are added.
\<close>

theorem absent_directory_raises:
  "calculate_ual_rdm_size curated ''/data'' (JInt 42) ''v01'' = Inl FileNotFoundError
   \<and> calculate_ual_rdm_size curated ''/data'' (JInt 44) ''v01'' = Inl FileNotFoundError
   \<and> calculate_ual_rdm_size curated ''/data'' (JInt 43) ''v01'' = Inl FileNotFoundError
   \<and> calculate_ual_rdm_size curated ''/data'' (JInt 45) ''v01'' = Inr 10"
  by code_simp

section \<open>Properties of the sort\<close>

lemma insert_sorted_mset:
  "insert_sorted lt key x ys = Inr zs \<Longrightarrow> mset zs = add_mset x (mset ys)"
  by (induction ys arbitrary: zs) (auto split: sum.splits bool.splits)

lemma sort_from_mset:
  "sort_from lt key placed xs = Inr ys \<Longrightarrow> mset ys = mset placed + mset xs"
  by (induction xs arbitrary: placed) (auto split: sum.splits dest: insert_sorted_mset)

lemma py_sorted_mset: "py_sorted lt key xs = Inr ys \<Longrightarrow> mset ys = mset xs"
  using sort_from_mset [of lt key "[]" xs ys] by (simp add: py_sorted_def)

lemma insert_sorted_adjacent:
  assumes asym: "\<And>a b. lt a b = Inr True \<Longrightarrow> lt b a = Inr False"
  shows "successively (\<lambda>newer older. lt (key newer) (key older) = Inr False) ys \<Longrightarrow>
         insert_sorted lt key x ys = Inr zs \<Longrightarrow>
         successively (\<lambda>newer older. lt (key newer) (key older) = Inr False) zs
         \<and> (zs \<noteq> [] \<and> (hd zs = x \<or> (ys \<noteq> [] \<and> hd zs = hd ys \<and> lt (key x) (key (hd ys)) = Inr True)))"
proof (induction ys arbitrary: zs)
  case Nil
  then show ?case by auto
next
  case (Cons y ys)
  show ?case
  proof (cases "lt (key x) (key y)")
    case (Inl e)
    with Cons.prems show ?thesis by simp
  next
    case (Inr b)
    show ?thesis
    proof (cases b)
      case False
      with Inr Cons.prems show ?thesis by auto
    next
      case True
      with Inr Cons.prems obtain zs' where ins: "insert_sorted lt key x ys = Inr zs'" and zs: "zs = y # zs'"
        by (auto split: sum.splits)
      from Cons.prems(1) have "successively (\<lambda>newer older. lt (key newer) (key older) = Inr False) ys"
        by (cases ys) auto
      from Cons.IH [OF this ins] have IH: "successively (\<lambda>newer older. lt (key newer) (key older) = Inr False) zs'"
        and hd: "zs' \<noteq> []" "hd zs' = x \<or> (ys \<noteq> [] \<and> hd zs' = hd ys \<and> lt (key x) (key (hd ys)) = Inr True)"
        by auto
      from hd(2) have "lt (key y) (key (hd zs')) = Inr False"
      proof
        assume "hd zs' = x"
        then show ?thesis using asym [of "key x" "key y"] Inr True by simp
      next
        assume "ys \<noteq> [] \<and> hd zs' = hd ys \<and> lt (key x) (key (hd ys)) = Inr True"
        then show ?thesis using Cons.prems(1) by (cases ys) auto
      qed
      then have "successively (\<lambda>newer older. lt (key newer) (key older) = Inr False) (y # zs')"
        using IH hd(1) by (cases zs') auto
      then show ?thesis using zs Inr True by simp
    qed
  qed
qed

lemma sort_from_adjacent:
  assumes asym: "\<And>a b. lt a b = Inr True \<Longrightarrow> lt b a = Inr False"
  shows "successively (\<lambda>newer older. lt (key newer) (key older) = Inr False) placed \<Longrightarrow>
         sort_from lt key placed xs = Inr ys \<Longrightarrow>
         successively (\<lambda>newer older. lt (key newer) (key older) = Inr False) (rev ys)"
proof (induction xs arbitrary: placed)
  case Nil
  then show ?case by auto
next
  case (Cons x xs)
  from Cons.prems(2) obtain placed' where ins: "insert_sorted lt key x placed = Inr placed'"
    and rest: "sort_from lt key placed' xs = Inr ys"
    by (auto split: sum.splits)
  from insert_sorted_adjacent [OF asym Cons.prems(1) ins]
  have "successively (\<lambda>newer older. lt (key newer) (key older) = Inr False) placed'"
    by simp
  from Cons.IH [OF this rest] show ?case .
qed

lemma sort_from_sorted:
  "successively (\<lambda>newer older. lt (key newer) (key older) = Inr False) (rev xs @ placed) \<Longrightarrow>
   sort_from lt key placed xs = Inr (rev placed @ xs)"
proof (induction xs arbitrary: placed)
  case Nil
  then show ?case by simp
next
  case (Cons x xs)
  from Cons.prems have suc: "successively (\<lambda>newer older. lt (key newer) (key older) = Inr False) (rev xs @ (x # placed))"
    by simp
  then have "successively (\<lambda>newer older. lt (key newer) (key older) = Inr False) (x # placed)"
    by (simp add: successively_append_iff)
  then have ins: "insert_sorted lt key x placed = Inr (x # placed)"
    by (cases placed) auto
  show ?case using Cons.IH [OF suc] ins by simp
qed

lemma py_sorted_idempotent:
  assumes asym: "\<And>a b. lt a b = Inr True \<Longrightarrow> lt b a = Inr False"
    and "py_sorted lt key xs = Inr ys"
  shows "py_sorted lt key ys = Inr ys"
proof -
  have "successively (\<lambda>newer older. lt (key newer) (key older) = Inr False) (rev ys)"
    using sort_from_adjacent [where lt = lt and key = key and placed = "[]" and xs = xs and ys = ys]
      asym assms(2)
    by (simp add: py_sorted_def)
  then show ?thesis
    using sort_from_sorted [where lt = lt and key = key and xs = ys and placed = "[]"]
    by (simp add: py_sorted_def)
qed

lemma insert_sorted_linorder:
  fixes f :: "'a \<Rightarrow> 'k::linorder"
  assumes "sorted (map f (rev ys))"
  shows "\<exists>zs. insert_sorted (\<lambda>a b. Inr (a < b)) f x ys = Inr zs
           \<and> sorted (map f (rev zs))
           \<and> (\<forall>k. filter (\<lambda>y. f y = k) (rev zs) = filter (\<lambda>y. f y = k) (rev ys @ [x]))"
  using assms
proof (induction ys)
  case Nil
  show ?case by simp
next
  case (Cons y ys)
  show ?case
  proof (cases "f x < f y")
    case False
    then show ?thesis using Cons.prems by (auto simp: sorted_append)
  next
    case True
    from Cons.prems have "sorted (map f (rev ys))" by (simp add: sorted_append)
    from Cons.IH [OF this] obtain zs where
      ins: "insert_sorted (\<lambda>a b. Inr (a < b)) f x ys = Inr zs"
      and srt: "sorted (map f (rev zs))"
      and flt: "\<And>k. filter (\<lambda>y. f y = k) (rev zs) = filter (\<lambda>y. f y = k) (rev ys @ [x])"
      by blast
    have "set zs = insert x (set ys)"
      using insert_sorted_mset [OF ins] by (metis set_mset_add_mset_insert set_mset_mset)
    then have "sorted (map f (rev (y # zs)))"
      using srt True Cons.prems by (auto simp: sorted_append)
    moreover have "filter (\<lambda>u. f u = k) (rev (y # zs)) = filter (\<lambda>u. f u = k) (rev (y # ys) @ [x])" for k
      using flt [of k] True by auto
    ultimately show ?thesis using ins True by simp
  qed
qed

lemma sort_from_linorder:
  fixes f :: "'a \<Rightarrow> 'k::linorder"
  assumes "sorted (map f (rev placed))"
  shows "\<exists>ys. sort_from (\<lambda>a b. Inr (a < b)) f placed xs = Inr ys
           \<and> sorted (map f ys)
           \<and> (\<forall>k. filter (\<lambda>y. f y = k) ys = filter (\<lambda>y. f y = k) (rev placed @ xs))"
  using assms
proof (induction xs arbitrary: placed)
  case Nil
  then show ?case by simp
next
  case (Cons x xs)
  from insert_sorted_linorder [OF Cons.prems, of x] obtain zs where
    ins: "insert_sorted (\<lambda>a b. Inr (a < b)) f x placed = Inr zs"
    and srt: "sorted (map f (rev zs))"
    and flt: "\<And>k. filter (\<lambda>y. f y = k) (rev zs) = filter (\<lambda>y. f y = k) (rev placed @ [x])"
    by blast
  from Cons.IH [OF srt] obtain ys where
    "sort_from (\<lambda>a b. Inr (a < b)) f zs xs = Inr ys" "sorted (map f ys)"
    "\<And>k. filter (\<lambda>y. f y = k) ys = filter (\<lambda>y. f y = k) (rev zs @ xs)"
    by blast
  then show ?case using ins flt by simp
qed

lemma py_sorted_linorder:
  fixes f :: "'a \<Rightarrow> 'k::linorder"
  shows "py_sorted (\<lambda>a b. Inr (a < b)) f xs = Inr (sort_key f xs)"
proof -
  from sort_from_linorder [of f "[]" xs] obtain ys where
    run: "sort_from (\<lambda>a b. Inr (a < b)) f [] xs = Inr ys"
    and srt: "sorted (map f ys)"
    and flt: "\<And>k. filter (\<lambda>y. f y = k) ys = filter (\<lambda>y. f y = k) xs"
    by auto
  have "mset ys = mset xs"
    using sort_from_mset [OF run] by simp
  moreover have "filter (\<lambda>x. f k = f x) ys = filter (\<lambda>x. f k = f x) xs" for k
    using flt [of "f k"] by (simp add: eq_commute)
  ultimately have "sort_key f xs = ys"
    using srt by (intro properties_for_sort_key) auto
  then show ?thesis using run by (simp add: py_sorted_def)
qed

lemma py_eq_sym_aux:
  "py_eq a b = py_eq b a" "py_eq_list xs ys = py_eq_list ys xs" "items_within d e = items_within d e"
proof (induction a b and xs ys and d e rule: py_eq_py_eq_list_items_within.induct)
  case (1 b)
  show ?case by (cases b) auto
next
  case (2 x b)
  show ?case by (cases b) auto
next
  case (3 i b)
  show ?case by (cases b) auto
next
  case (4 s b)
  show ?case by (cases b) auto
next
  case (5 xs b)
  then show ?case by (cases b) auto
next
  case (6 d b)
  show ?case by (cases b) auto
next
  case (7 ys)
  show ?case by (cases ys) auto
next
  case (8 x xs ys)
  then show ?case by (cases ys) auto
next
  case (9 e)
  show ?case by simp
next
  case (10 k v d e)
  show ?case by simp
qed

lemma py_eq_sym: "py_eq a b = py_eq b a"
  by (rule py_eq_sym_aux(1))

lemma py_lt_asym_aux:
  "py_lt a b = Inr True \<longrightarrow> py_lt b a = Inr False"
  "py_lt_list xs ys = Inr True \<longrightarrow> py_lt_list ys xs = Inr False"
proof (induction a b and xs ys rule: py_lt_py_lt_list.induct)
  case (1 b)
  show ?case by simp
next
  case (2 x b)
  show ?case by (cases b) auto
next
  case (3 i b)
  show ?case by (cases b) auto
next
  case (4 s b)
  show ?case by (cases b) auto
next
  case (5 xs b)
  then show ?case by (cases b) auto
next
  case (6 d b)
  show ?case by simp
next
  case (7 ys)
  show ?case by (cases ys) auto
next
  case (8 x xs ys)
  show ?case
  proof (cases ys)
    case Nil
    then show ?thesis by simp
  next
    case (Cons y ys')
    show ?thesis
    proof (cases "py_eq x y")
      case True
      then show ?thesis using 8(1) [OF Cons True] Cons py_eq_sym [of y x] by simp
    next
      case False
      then show ?thesis using 8(2) [OF Cons False] Cons py_eq_sym [of y x] by simp
    qed
  qed
qed

lemma py_lt_asym: "py_lt a b = Inr True \<Longrightarrow> py_lt b a = Inr False"
  using py_lt_asym_aux(1) by blast

lemma str_tuple_lt_asym: "str_tuple_lt a b = Inr True \<Longrightarrow> str_tuple_lt b a = Inr False"
  by (auto simp: str_tuple_lt_def)

section \<open>Properties of the normalizer\<close>

lemma sorter_items_list_all2:
  "sorter_items xs = Inr ys \<Longrightarrow> list_all2 (\<lambda>x y. sorter_api_result x = Inr y) xs ys"
  by (induction xs arbitrary: ys) (auto split: sum.splits)

lemma list_all2_sorter_items:
  "list_all2 (\<lambda>x y. sorter_api_result x = Inr y) xs ys \<Longrightarrow> sorter_items xs = Inr ys"
  by (induction xs ys rule: list_all2_induct) auto

lemma sorter_keeps_is_dict: "sorter_api_result v = Inr w \<Longrightarrow> is_dict w = is_dict v"
  by (cases v) (auto split: if_splits sum.splits simp: Let_def map_sum_def)

lemma sorter_fields_step:
  "sorter_fields d (key # keys) acc =
     (case field_value d key of
        Inl e \<Rightarrow> Inl e
      | Inr w \<Rightarrow> sorter_fields d keys (AList.update key w acc))"
  by (simp add: field_value_def split: option.splits sum.splits)

lemma sorter_fields_cong:
  "(\<And>k. k \<in> set keys \<Longrightarrow> field_value d k = field_value d' k) \<Longrightarrow>
   sorter_fields d keys acc = sorter_fields d' keys acc"
proof (induction keys arbitrary: acc)
  case Nil
  show ?case by simp
next
  case (Cons key keys)
  then show ?case by (simp only: sorter_fields_step) (auto split: sum.splits)
qed

lemma update_absent: "k \<notin> fst ` set al \<Longrightarrow> AList.update k v al = al @ [(k, v)]"
  by (induction al) auto

lemma sorter_fields_rebuild:
  "distinct keys \<Longrightarrow> set keys \<inter> fst ` set acc = {} \<Longrightarrow>
   (\<And>k. k \<in> set keys \<Longrightarrow> field_value d k = Inr (h k)) \<Longrightarrow>
   sorter_fields d keys acc = Inr (acc @ map (\<lambda>k. (k, h k)) keys)"
proof (induction keys arbitrary: acc)
  case Nil
  show ?case by simp
next
  case (Cons key keys)
  have upd: "AList.update key (h key) acc = acc @ [(key, h key)]"
    using Cons.prems(2) by (intro update_absent) auto
  have "sorter_fields d keys (acc @ [(key, h key)])
          = Inr ((acc @ [(key, h key)]) @ map (\<lambda>k. (k, h k)) keys)"
    using Cons.prems by (intro Cons.IH) auto
  then show ?case
    using Cons.prems(3) [of key] upd by (simp add: sorter_fields_step del: sorter_fields.simps)
qed

lemma sorter_fields_built:
  assumes "sorter_fields d keys acc = Inr r"
    and "acc = map (\<lambda>k. (k, g k)) ks0"
    and "distinct ks0" and "sorted (ks0 @ keys)"
    and "\<And>k w. field_value d k = Inr w \<Longrightarrow> g k = w"
  shows "\<exists>ks1. r = map (\<lambda>k. (k, g k)) ks1 \<and> distinct ks1 \<and> sorted ks1
            \<and> set ks1 = set ks0 \<union> set keys
            \<and> (\<forall>k\<in>set keys. field_value d k = Inr (g k))"
  using assms(1-4)
proof (induction keys arbitrary: acc ks0)
  case Nil
  then show ?case by (auto simp: sorted_append)
next
  case (Cons key keys)
  from Cons.prems(1) obtain w where fv: "field_value d key = Inr w"
    and rest: "sorter_fields d keys (AList.update key w acc) = Inr r"
    by (auto simp: sorter_fields_step simp del: sorter_fields.simps split: sum.splits)
  have w: "w = g key" using assms(5) [OF fv] by simp
  show ?case
  proof (cases "key \<in> set ks0")
    case True
    then have "map_of acc key = Some (g key)"
      using Cons.prems(2) by (simp add: map_of_map_restrict)
    then have "AList.update key w acc = acc"
      using w by (simp add: AList.update_triv)
    with rest have rest': "sorter_fields d keys acc = Inr r" by simp
    have "sorted (ks0 @ keys)"
      using Cons.prems(4) by (auto simp: sorted_append)
    from Cons.IH [OF rest' Cons.prems(2,3) this] show ?thesis
      using True fv w by auto
  next
    case False
    then have "AList.update key w acc = map (\<lambda>k. (k, g k)) (ks0 @ [key])"
      using Cons.prems(2) w by (simp add: update_absent image_image)
    with rest have rest': "sorter_fields d keys (map (\<lambda>k. (k, g k)) (ks0 @ [key])) = Inr r"
      by simp
    have "distinct (ks0 @ [key])" using False Cons.prems(3) by simp
    moreover have "sorted ((ks0 @ [key]) @ keys)" using Cons.prems(4) by simp
    ultimately show ?thesis
      using Cons.IH [OF rest' refl] fv w by auto
  qed
qed

lemma list_all2_left: "list_all2 P xs ys \<Longrightarrow> x \<in> set xs \<Longrightarrow> \<exists>y\<in>set ys. P x y"
  by (induction xs ys rule: list_all2_induct) auto

lemma list_all2_right: "list_all2 P xs ys \<Longrightarrow> y \<in> set ys \<Longrightarrow> \<exists>x\<in>set xs. P x y"
  by (induction xs ys rule: list_all2_induct) auto

lemma sorter_dict_unfold:
  "sorter_api_result (JDict d) = Inr w \<longleftrightarrow>
     (\<exists>r. sorter_fields d (sort (map fst d)) [] = Inr r \<and> w = JDict r)"
  by (cases "sorter_fields d (sort (map fst d)) []") auto

lemma sorter_idempotent_Inr:
  "sorter_api_result v = Inr w \<Longrightarrow> sorter_api_result w = Inr w"
proof (induction v arbitrary: w)
  case JNull
  then show ?case by auto
next
  case (JBool b)
  then show ?case by auto
next
  case (JInt i)
  then show ?case by auto
next
  case (JStr s)
  then show ?case by auto
next
  case (JList xs)
  show ?case
  proof (cases "list_all is_dict xs \<and> length xs \<noteq> 0")
    case True
    let ?U = "sorted_list_of_set (set (concat (map (\<lambda>item. map fst (dict_items item)) xs)))"
    from True JList.prems obtain ys where
      srt: "py_sorted str_tuple_lt (dicts_sort_key ?U) xs = Inr ys" and w: "w = JList ys"
      by (cases "py_sorted str_tuple_lt (dicts_sort_key ?U) xs") (auto simp: Let_def)
    have m: "mset ys = mset xs" using py_sorted_mset [OF srt] .
    then have st: "set ys = set xs" by (metis set_mset_mset)
    have len: "length ys = length xs" using m by (metis size_mset)
    have dicts: "list_all is_dict ys \<and> length ys \<noteq> 0"
      using True st len by (simp add: list_all_iff)
    have U: "sorted_list_of_set (set (concat (map (\<lambda>item. map fst (dict_items item)) ys))) = ?U"
      using st by simp
    have "py_sorted str_tuple_lt (dicts_sort_key ?U) ys = Inr ys"
      using srt by (rule py_sorted_idempotent [rotated]) (rule str_tuple_lt_asym)
    then show ?thesis using dicts U w by (simp add: Let_def)
  next
    case False
    from False JList.prems obtain items zs where
      its: "sorter_items xs = Inr items"
      and srt: "py_sorted py_lt (\<lambda>v. v) items = Inr zs" and w: "w = JList zs"
      by (auto split: sum.splits simp: map_sum_def)
    have rel: "list_all2 (\<lambda>x y. sorter_api_result x = Inr y) xs items"
      using sorter_items_list_all2 [OF its] .
    have m: "mset zs = mset items" using py_sorted_mset [OF srt] .
    then have st: "set zs = set items" by (metis set_mset_mset)
    have len: "length zs = length xs"
      using m rel by (metis size_mset list_all2_lengthD)
    have not_dicts: "\<not> (list_all is_dict zs \<and> length zs \<noteq> 0)"
    proof (cases "xs = []")
      case True
      then show ?thesis using len by simp
    next
      case nonempty: False
      with False obtain x where x: "x \<in> set xs" "\<not> is_dict x"
        by (auto simp: list_all_iff)
      from list_all2_left [OF rel x(1)]
      obtain y where y: "y \<in> set items" "sorter_api_result x = Inr y"
        by blast
      then have "\<not> is_dict y" using sorter_keeps_is_dict [of x y] x(2) by simp
      then show ?thesis using y(1) st by (auto simp: list_all_iff)
    qed
    have fixed: "sorter_api_result z = Inr z" if "z \<in> set zs" for z
    proof -
      from that st have "z \<in> set items" by simp
      from list_all2_right [OF rel this]
      obtain x where "x \<in> set xs" "sorter_api_result x = Inr z"
        by blast
      then show ?thesis using JList.IH by blast
    qed
    have "list_all2 (\<lambda>x y. sorter_api_result x = Inr y) zs zs"
      using fixed by (simp add: list_all2_same)
    then have its': "sorter_items zs = Inr zs" by (rule list_all2_sorter_items)
    have "py_sorted py_lt (\<lambda>v. v) zs = Inr zs"
      using srt by (rule py_sorted_idempotent [rotated]) (rule py_lt_asym)
    then show ?thesis using not_dicts its' w by auto
  qed
next
  case (JDict d)
  define g where "g k = (case field_value d k of Inr u \<Rightarrow> u | Inl e \<Rightarrow> JNull)" for k
  from JDict.prems obtain r where
    run: "sorter_fields d (sort (map fst d)) [] = Inr r" and w: "w = JDict r"
    using sorter_dict_unfold by blast
  have g: "g k = u" if "field_value d k = Inr u" for k u
    using that by (simp add: g_def)
  from sorter_fields_built [OF run, of g "[]"] g
  obtain ks where r: "r = map (\<lambda>k. (k, g k)) ks" and dist: "distinct ks" and srt: "sorted ks"
    and vals: "\<forall>k\<in>set (sort (map fst d)). field_value d k = Inr (g k)"
    and ks: "set ks = set (sort (map fst d))"
    by auto
  have keys: "sort (map fst r) = ks"
    using r srt by (simp add: comp_def sorted_sort_id)
  have fv: "field_value r k = Inr (g k)" if "k \<in> set ks" for k
  proof -
    have look: "map_of r k = Some (g k)"
      using that r by (simp add: map_of_map_restrict)
    show ?thesis
    proof (cases "k = ''authors''")
      case True
      then show ?thesis using look by (simp add: field_value_def)
    next
      case False
      from that ks vals have "field_value d k = Inr (g k)" by blast
      then obtain v where v: "map_of d k = Some v" "sorter_api_result v = Inr (g k)"
        using False by (auto simp: field_value_def split: option.splits)
      from v(1) have "(k, v) \<in> set d" by (rule map_of_SomeD)
      then have "sorter_api_result (g k) = Inr (g k)"
        using JDict.IH [of "(k, v)" v "g k"] v(2) by simp
      then show ?thesis using look False by (simp add: field_value_def)
    qed
  qed
  have "sorter_fields r ks [] = Inr ([] @ map (\<lambda>k. (k, g k)) ks)"
    using dist fv by (intro sorter_fields_rebuild) auto
  then show ?case using keys r w by simp
qed

text \<open>
  C7: normalization is idempotent. For every value \<^verbatim>\<open>v\<close>,
  \<^verbatim>\<open>sorter_api_result(sorter_api_result(v))\<close> is \<^verbatim>\<open>sorter_api_result(v)\<close>: where the
  first normalization returns a value, normalizing that value returns it again, and
  where it raises, so does the composition.
\<close>

theorem sorter_idempotent:
  "(case sorter_api_result v of
      Inl e \<Rightarrow> Inl e
    | Inr w \<Rightarrow> sorter_api_result w) = sorter_api_result v"
  by (cases "sorter_api_result v") (auto dest: sorter_idempotent_Inr)

text \<open>A dictionary whose keys and whose list are out of order, normalized.\<close>

lemma sorter_example:
  "sorter_api_result (JDict [(''b'', JList [JInt 2, JInt 1]), (''a'', JStr ''x'')])
     = Inr (JDict [(''a'', JStr ''x''), (''b'', JList [JInt 1, JInt 2])])"
  by code_simp

text \<open>The normalized dictionary is normalized to itself.\<close>

theorem sorter_idempotent_witness:
  "sorter_api_result (JDict [(''a'', JStr ''x''), (''b'', JList [JInt 1, JInt 2])])
     = Inr (JDict [(''a'', JStr ''x''), (''b'', JList [JInt 1, JInt 2])])"
  using sorter_idempotent [of "JDict [(''b'', JList [JInt 2, JInt 1]), (''a'', JStr ''x'')]"]
  by (simp only: sorter_example sum.case)

text \<open>
  C6: for every non-empty list in which every element is a dictionary, normalization
  returns the list sorted by the tuple of \<^verbatim>\<open>str(element.get(key, ""))\<close> over the
  ascending-sorted union of the keys of all elements (\<^verbatim>\<open>spec_sort_dicts\<close>). The
  elements are not normalized: the result has the elements of the input, each as it was.
\<close>

theorem sorter_list_of_dicts:
  assumes "json_list \<noteq> []" and "\<forall>element\<in>set json_list. is_dict element"
  shows "sorter_api_result (JList json_list) = Inr (JList (spec_sort_dicts json_list))
         \<and> mset (spec_sort_dicts json_list) = mset json_list"
proof -
  have "py_sorted str_tuple_lt f json_list = Inr (sort_key f json_list)" for f :: "json \<Rightarrow> string list"
    using py_sorted_linorder [of f json_list] by (simp add: str_tuple_lt_def [abs_def])
  then show ?thesis
    using assms
    by (simp add: spec_sort_dicts_def union_of_keys_def dicts_sort_key_def [abs_def]
        list_all_iff Let_def)
qed

text \<open>Two dictionaries change places; the list inside the one stays out of order.\<close>

lemma spec_sort_dicts_example:
  "spec_sort_dicts [JDict [(''a'', JInt 1)], JDict [(''b'', JList [JInt 2, JInt 1])]]
     = [JDict [(''b'', JList [JInt 2, JInt 1])], JDict [(''a'', JInt 1)]]"
  by code_simp

text \<open>The normalizer on that list.\<close>

theorem sorter_list_of_dicts_witness:
  "sorter_api_result (JList [JDict [(''a'', JInt 1)], JDict [(''b'', JList [JInt 2, JInt 1])]])
     = Inr (JList [JDict [(''b'', JList [JInt 2, JInt 1])], JDict [(''a'', JInt 1)]])"
  using sorter_list_of_dicts [of "[JDict [(''a'', JInt 1)], JDict [(''b'', JList [JInt 2, JInt 1])]]"]
  by (simp add: spec_sort_dicts_example)

lemma sorter_permuted_dict:
  assumes "distinct (map fst d)" and "mset d' = mset d"
  shows "sorter_api_result (JDict d') = sorter_api_result (JDict d)"
proof -
  have keys: "mset (map fst d') = mset (map fst d)"
    using assms(2) by (metis mset_map)
  then have "distinct (map fst d')"
    using assms(1) by (metis mset_eq_imp_distinct_iff)
  moreover have "set d' = set d"
    using assms(2) by (metis set_mset_mset)
  ultimately have look: "map_of d' = map_of d"
    using assms(1) by (simp add: map_of_inject_set)
  have "sort (map fst d') = sort (map fst d)"
    using keys by (metis sorted_list_of_multiset_mset)
  moreover have "sorter_fields d' ks [] = sorter_fields d ks []" for ks
    by (rule sorter_fields_cong) (simp add: field_value_def look)
  ultimately show ?thesis by simp
qed

text \<open>
  C1: two dictionaries that have the same items in a different order of keys (the keys
  of a dictionary are distinct) are normalized to the same result: the same exception,
  or the same value, with the same order of keys at every level, so that the text
  \<^verbatim>\<open>json.dumps\<close> writes for the one is byte for byte the text for the other.
\<close>

theorem sorter_key_order_irrelevant:
  assumes "distinct (map fst d)" and "mset d' = mset d"
  shows "sorter_api_result (JDict d') = sorter_api_result (JDict d)
         \<and> map_sum id (json_dumps 0) (sorter_api_result (JDict d'))
             = map_sum id (json_dumps 0) (sorter_api_result (JDict d))"
  using sorter_permuted_dict [OF assms] by simp

text \<open>A dictionary and the same items in the other order.\<close>

theorem sorter_key_order_irrelevant_witness:
  "sorter_api_result (JDict [(''a'', JStr ''x''), (''b'', JList [JInt 2, JInt 1])])
     = sorter_api_result (JDict [(''b'', JList [JInt 2, JInt 1]), (''a'', JStr ''x'')])"
  using sorter_key_order_irrelevant
    [of "[(''b'', JList [JInt 2, JInt 1]), (''a'', JStr ''x'')]"
        "[(''a'', JStr ''x''), (''b'', JList [JInt 2, JInt 1])]"]
  by simp

section \<open>Properties of the estimate of the payload\<close>

text \<open>
  The standardization writes into the record it is given and into no other, and what it
  returns is the record it was given, not a copy.
\<close>

lemma standardize_leaves_other_records:
  "b \<noteq> a \<Longrightarrow> fst (standardize_api_result st a) b = st b"
  by (simp add: standardize_api_result_def Let_def split: prod.splits option.splits)

lemma standardize_returns_its_argument:
  "snd (standardize_api_result st a) = Inr c \<Longrightarrow> c = a"
  by (auto simp: standardize_api_result_def Let_def split: prod.splits option.splits)

text \<open>
  C9 says that the pipeline of normalization leaves the caller's record unchanged. The
  code does not: \<^verbatim>\<open>calculate_json_file_size\<close> calls \<^verbatim>\<open>standardize_api_result\<close> on
  the caller's record and names the result \<^verbatim>\<open>version_data_copy\<close>, but the result is
  the record itself, written in place. A record \<^verbatim>\<open>{"id": 7, "doi": None}\<close> is
  \<^verbatim>\<open>{"id": 7, "doi": ""}\<close> after the call (which returns 30, the size of the text
  written to \<^verbatim>\<open>/tmp/7.json\<close>).
\<close>

theorem json_file_size_writes_into_the_record:
  "fst (calculate_json_file_size posix_tmp
          (\<lambda>address. [(''id'', JInt 7), (''doi'', JNull)]) 0) 0
     = [(''id'', JInt 7), (''doi'', JStr '''')]
   \<and> snd (calculate_json_file_size posix_tmp
          (\<lambda>address. [(''id'', JInt 7), (''doi'', JNull)]) 0)
     = Inr 30"
  by code_simp

end
